theory Spec2Isabelle
  imports Main "HOL-Library.Char_ord" "HOL-Library.List_Lexorder"
begin

section \<open>palmdev-prep: discovery of installed SDKs and generation of the specs text\<close>

text \<open>
  A shallow embedding of \<^verbatim>\<open>tools/palmdev-prep.c\<close>. C strings are \<open>string\<close> (the
  characters before the terminating NUL), a possibly-NULL pointer is an \<open>option\<close>, the two
  global linked lists are HOL lists in \<open>next\<close> order, and standard output and the spec
  file are the text written so far. The string store only gives every string a stable
  copy, so \<open>insert_string\<close> is the identity on values. Paths are unbounded strings: the
  fixed-size buffer \<^verbatim>\<open>char path[FILENAME_MAX]\<close> of \<open>make_root\<close> is outside the model.
\<close>

subsection \<open>The C library functions the program calls\<close>

text \<open>\<open>tolower\<close> in the "C" locale (the program never calls \<open>setlocale\<close>).\<close>

definition tolower :: "char \<Rightarrow> char" where
  "tolower c =
     (case map_of (zip ''ABCDEFGHIJKLMNOPQRSTUVWXYZ'' ''abcdefghijklmnopqrstuvwxyz'') c of
        Some l \<Rightarrow> l
      | None \<Rightarrow> c)"

text \<open>\<open>isspace\<close> in the "C" locale: space, and the controls from tab to carriage return.\<close>

definition isspace :: "char \<Rightarrow> bool" where
  "isspace c = (c \<in> set [CHR 0x20, CHR 0x09, CHR 0x0A, CHR 0x0B, CHR 0x0C, CHR 0x0D])"

text \<open>
  \<open>strcmp\<close> compares the first differing pair of characters as unsigned bytes (the order
  of \<open>char\<close>), the terminator being below every character. C fixes only the sign of a
  non-zero result; the model returns \<open>-1\<close>, \<open>0\<close> or \<open>1\<close>.
\<close>

fun strcmp :: "string \<Rightarrow> string \<Rightarrow> int" where
  "strcmp [] [] = 0"
| "strcmp [] (b # t) = - 1"
| "strcmp (a # s) [] = 1"
| "strcmp (a # s) (b # t) =
     (if a = b then strcmp s t else if a < b then - 1 else 1)"

text \<open>\<open>strrchr\<close>: the position of the last occurrence of a character, as an offset.\<close>

fun strrchr :: "string \<Rightarrow> char \<Rightarrow> nat option" where
  "strrchr [] c = None"
| "strrchr (x # s) c =
     (case strrchr s c of
        Some i \<Rightarrow> Some (Suc i)
      | None \<Rightarrow> if x = c then Some 0 else None)"

text \<open>\<open>strspn\<close>: the length of the longest initial segment made of accepted characters.\<close>

fun strspn :: "string \<Rightarrow> string \<Rightarrow> nat" where
  "strspn [] accept = 0"
| "strspn (c # s) accept = (if c \<in> set accept then Suc (strspn s accept) else 0)"

definition strlen :: "string \<Rightarrow> nat" where
  "strlen s = length s"

subsection \<open>Prefix matching and the canonical SDK key\<close>

text \<open>
  \<open>matches prefix str\<close>: the loop advances both pointers while the prefix has a character
  left and the lower-cased character of \<open>str\<close> equals it. At the end of \<open>str\<close> the
  terminator differs from every prefix character, so the loop stops there.
\<close>

fun matches :: "string \<Rightarrow> string \<Rightarrow> bool" where
  "matches [] str = True"
| "matches (p # prefix) [] = False"
| "matches (p # prefix) (c # str) = (if tolower c = p then matches prefix str else False)"

text \<open>The value of \<open>name\<close> when \<open>canonical_key\<close> copies it to the string store.\<close>

definition skip_prefixes :: "string \<Rightarrow> string" where
  "skip_prefixes name =
     (let name1 = (if matches ''palmos'' name then drop 6 name else name)
      in if matches ''sdk-'' name1 then drop 4 name1 else name1)"

definition canonical_key :: "string \<Rightarrow> string" where
  "canonical_key name =
     (let key = skip_prefixes name
      in case strrchr key CHR ''.'' of
           None \<Rightarrow> key
         | Some dot \<Rightarrow> if strcmp (drop dot key) ''.0'' = 0 then take dot key else key)"

subsection \<open>Roots\<close>

datatype sub_kind = include_kind | lib_kind

text \<open>
  \<open>struct root\<close> without its \<open>next\<close> link. \<open>make_root\<close> never assigns \<open>key\<close>: the field
  is \<open>None\<close> until \<open>analyze_palmdev_tree\<close> sets it on a root it puts on the SDK list.
\<close>

record root =
  prefix :: string
  sub_include :: "string option"
  sub_lib :: "string option"
  key :: "string option"

definition sub :: "root \<Rightarrow> sub_kind \<Rightarrow> string option" where
  "sub r kind = (case kind of include_kind \<Rightarrow> sub_include r | lib_kind \<Rightarrow> sub_lib r)"

text \<open>
  The directory functions of \<^verbatim>\<open>utils.h\<close> and \<^verbatim>\<open>dirent.h\<close> are parameters: \<open>opendir\<close>
  gives the entry names of a directory in \<open>readdir\<close> order (\<open>None\<close> when it cannot be
  opened), \<open>is_dir\<close> and \<open>is_dir_dirent\<close> test a formatted path (the latter also sees the
  entry's name), \<open>readtree\<close> gives the directories that \<open>opentree (DIRS, path)\<close> yields.
\<close>

record filesystem =
  opendir :: "string \<Rightarrow> string list option"
  is_dir :: "string \<Rightarrow> bool"
  is_dir_dirent :: "string \<Rightarrow> string \<Rightarrow> bool"
  readtree :: "string \<Rightarrow> string list"

definition make_root :: "filesystem \<Rightarrow> string \<Rightarrow> root" where
  "make_root fs path =
     \<lparr> prefix = path,
       sub_include =
         (if is_dir fs (path @ ''/include'') then Some ''include''
          else if is_dir fs (path @ ''/Incs'') then Some ''Incs''
          else None),
       sub_lib =
         (if is_dir fs (path @ ''/lib'') then Some ''lib''
          else if is_dir fs (path @ ''/GCC Libraries'') then Some ''GCC Libraries''
          else None),
       key = None \<rparr>"

text \<open>
  \<open>find\<close>: the first root of the list whose key compares equal, \<open>None\<close> for a NULL key.
  It is only called on the SDK list, whose roots all have their key set.
\<close>

fun find_root :: "root list \<Rightarrow> string option \<Rightarrow> root option" where
  "find_root list None = None"
| "find_root [] (Some k) = None"
| "find_root (r # list) (Some k) =
     (if strcmp k (the (key r)) = 0 then Some r else find_root list (Some k))"

subsection \<open>The program state and the report\<close>

record state =
  generic_root_list :: "root list"
  sdk_root_list :: "root list"
  out :: string
  warnings :: "string list"

definition init_state :: state where
  "init_state = \<lparr> generic_root_list = [], sdk_root_list = [], out = [], warnings = [] \<rparr>"

definition printf :: "string \<Rightarrow> state \<Rightarrow> state" where
  "printf s st = st\<lparr> out := out st @ s \<rparr>"

text \<open>\<open>warning\<close> of \<^verbatim>\<open>utils.h\<close>: the message is recorded as the caller formats it.\<close>

definition warning :: "string \<Rightarrow> state \<Rightarrow> state" where
  "warning msg st = st\<lparr> warnings := warnings st @ [msg] \<rparr>"

text \<open>The conversion \<^verbatim>\<open>%-13s\<close>: left-justified in a field of at least 13 characters.\<close>

definition pad13 :: "string \<Rightarrow> string" where
  "pad13 name = name @ replicate (13 - length name) CHR '' ''"

text \<open>
  \<open>print_report\<close>. With an overriding root the \<open>root\<close> argument is not read (the caller
  passes NULL there); without one it is dereferenced, and the caller passes a root.
\<close>

fun print_report :: "string \<Rightarrow> root option \<Rightarrow> root option \<Rightarrow> bool \<Rightarrow> state \<Rightarrow> state" where
  "print_report name root (Some overriding_root) headers_required st =
     (let st1 = printf (''  '' @ pad13 name @ [CHR 0x09]) st;
          st2 = printf (''UNUSED -- hidden by '' @ prefix overriding_root) st1
      in printf ''\<newline>'' st2)"
| "print_report name (Some root) None headers_required st =
     (let st1 = printf (''  '' @ pad13 name @ [CHR 0x09]) st;
          st2 =
            (if headers_required \<and> sub_include root = None
             then printf ''INVALID -- no headers'' st1
             else
               (let st1a =
                      (case sub_include root of
                         Some i \<Rightarrow> printf (''headers in '' @ [CHR 0x27] @ i @ [CHR 0x27] @ '', '') st1
                       | None \<Rightarrow> printf ''no headers, '' st1)
                in case sub_lib root of
                     Some l \<Rightarrow> printf (''libraries in '' @ [CHR 0x27] @ l @ [CHR 0x27]) st1a
                   | None \<Rightarrow> printf ''no libraries'' st1a))
      in printf ''\<newline>'' st2)"

subsection \<open>The tree analyzer\<close>

text \<open>
  One turn of the \<open>readdir\<close> loop on the entry \<open>d_name\<close>; \<open>n\<close> is the loop's counter of
  SDK directories seen.
\<close>

definition scan_entry :: "filesystem \<Rightarrow> string \<Rightarrow> bool \<Rightarrow> state \<times> nat \<Rightarrow> string \<Rightarrow> state \<times> nat" where
  "scan_entry fs pfx report sn d_name =
     (let st = fst sn; n = snd sn in
      if matches ''sdk-'' d_name \<and> is_dir_dirent fs d_name (pfx @ ''/'' @ d_name) then
        (let k = canonical_key d_name;
             overriding_sdk = find_root (sdk_root_list st) (Some k);
             root =
               (case overriding_sdk of
                  Some ov \<Rightarrow> None
                | None \<Rightarrow> Some (make_root fs (pfx @ ''/'' @ d_name)));
             st1 = (if report then print_report d_name root overriding_sdk True st else st);
             st2 =
               (case root of
                  None \<Rightarrow> st1
                | Some r \<Rightarrow>
                    (if sub_include r \<noteq> None
                     then st1\<lparr> sdk_root_list := r\<lparr> key := Some k \<rparr> # sdk_root_list st1 \<rparr>
                     else st1))
         in (st2, Suc n))
      else (st, n))"

fun readdir_loop :: "filesystem \<Rightarrow> string \<Rightarrow> bool \<Rightarrow> state \<times> nat \<Rightarrow> string list \<Rightarrow> state \<times> nat" where
  "readdir_loop fs pfx report sn [] = sn"
| "readdir_loop fs pfx report sn (e # es) =
     readdir_loop fs pfx report (scan_entry fs pfx report sn e) es"

text \<open>
  \<open>analyze_palmdev_tree\<close>. The static \<open>last_generic_root\<close> always points at the end of
  the generic list, so the assignment through it appends.
\<close>

definition analyze_palmdev_tree :: "filesystem \<Rightarrow> string \<Rightarrow> bool \<Rightarrow> state \<Rightarrow> state" where
  "analyze_palmdev_tree fs pfx report st =
     (case opendir fs pfx of
        None \<Rightarrow> st
      | Some entries \<Rightarrow>
          (let st1 = (if report then printf (''Checking SDKs in '' @ pfx @ ''\<newline>'') st else st);
               sn = readdir_loop fs pfx report (st1, 0) entries;
               st2 = fst sn;
               n = snd sn;
               st3 = (if report \<and> n = 0 then printf ''  (none)\<newline>'' st2 else st2);
               root = make_root fs pfx;
               st4 =
                 (if sub_include root \<noteq> None \<or> sub_lib root \<noteq> None then
                    (let st3a =
                           (if report then
                              print_report ''  (common)'' (Some root) None False
                                (printf (''  and material in '' @ pfx @
                                         '' used regardless of SDK choice\<newline>'') st3)
                            else st3)
                     in st3a\<lparr> generic_root_list := generic_root_list st3a @ [make_root fs pfx] \<rparr>)
                  else st3)
           in if report then printf ''\<newline>'' st4 else st4))"

subsection \<open>The scan of all directories and the default SDK (\<open>main\<close>)\<close>

fun scan_args :: "filesystem \<Rightarrow> bool \<Rightarrow> state \<Rightarrow> string list \<Rightarrow> state" where
  "scan_args fs report st [] = st"
| "scan_args fs report st (a # args) =
     scan_args fs report
       (if is_dir fs a then analyze_palmdev_tree fs a report st
        else warning (''can'' @ [CHR 0x27] @ ''t open '' @ [CHR 0x27] @ a @ [CHR 0x27] @ '': @P'') st)
       args"

text \<open>\<open>PALMDEV_PREFIX\<close> comes from \<^verbatim>\<open>config.h\<close> and is a parameter.\<close>

definition scan_all :: "filesystem \<Rightarrow> string \<Rightarrow> bool \<Rightarrow> string list \<Rightarrow> state" where
  "scan_all fs PALMDEV_PREFIX report args =
     scan_args fs report (analyze_palmdev_tree fs PALMDEV_PREFIX report init_state) args"

text \<open>The loop that finds the SDK with the alphabetically highest key.\<close>

fun highest_loop :: "root \<Rightarrow> root list \<Rightarrow> root" where
  "highest_loop default_sdk [] = default_sdk"
| "highest_loop default_sdk (sdk # rest) =
     highest_loop
       (if strcmp (the (key sdk)) (the (key default_sdk)) > 0 then sdk else default_sdk) rest"

definition select_default :: "string option \<Rightarrow> bool \<Rightarrow> state \<Rightarrow> root option \<times> state" where
  "select_default default_sdk_name report st =
     (let ds1 =
            (case default_sdk_name of
               None \<Rightarrow> (None, st)
             | Some nm \<Rightarrow>
                 (let d = find_root (sdk_root_list st) (Some (canonical_key nm))
                  in (d,
                      if d = None
                      then warning (''SDK '' @ [CHR 0x27] @ nm @ [CHR 0x27] @
                                    '' not found -- using highest found instead'') st
                      else st)));
          default_sdk = fst ds1;
          st1 = snd ds1
      in case (default_sdk, sdk_root_list st1) of
           (None, first # rest) \<Rightarrow>
             (let d = highest_loop first (first # rest)
              in (Some d,
                  if report
                  then printf (''When GCC is given no -palmos options, SDK '' @ [CHR 0x27] @
                               the (key d) @ [CHR 0x27] @
                               '' will be used by default\<newline>\<newline>'') st1
                  else st1))
         | _ \<Rightarrow> (default_sdk, st1))"

subsection \<open>The spec synthesizer\<close>

definition spec :: "sub_kind \<Rightarrow> string" where
  "spec kind = (case kind of include_kind \<Rightarrow> ''cpp'' | lib_kind \<Rightarrow> ''link'')"

definition option :: "sub_kind \<Rightarrow> string" where
  "option kind = (case kind of include_kind \<Rightarrow> ''-isystem '' | lib_kind \<Rightarrow> ''-L'')"

text \<open>A \<open>FILE\<close> open for writing is the text written to it so far.\<close>

definition fprintf :: "string \<Rightarrow> string \<Rightarrow> string" where
  "fprintf f s = f @ s"

definition putc :: "char \<Rightarrow> string \<Rightarrow> string" where
  "putc c f = f @ [c]"

text \<open>The inner loop of \<open>write_dirtree\<close>: a backslash before every space character.\<close>

fun put_dir :: "string \<Rightarrow> string \<Rightarrow> string" where
  "put_dir f [] = f"
| "put_dir f (c # s) = put_dir (putc c (if isspace c then putc (CHR 0x5C) f else f)) s"

fun readtree_loop :: "string \<Rightarrow> sub_kind \<Rightarrow> string list \<Rightarrow> string" where
  "readtree_loop f kind [] = f"
| "readtree_loop f kind (dir # dirs) =
     readtree_loop (put_dir (fprintf f ('' '' @ option kind)) dir) kind dirs"

definition write_dirtree :: "filesystem \<Rightarrow> string \<Rightarrow> root \<Rightarrow> string option \<Rightarrow> sub_kind \<Rightarrow> string" where
  "write_dirtree fs f root target kind =
     (case sub root kind of
        None \<Rightarrow> f
      | Some s \<Rightarrow>
          (let target_for_lib = (case target of Some t \<Rightarrow> ''/m68k-palmos-coff'' | None \<Rightarrow> '''')
           in readtree_loop f kind (readtree fs (prefix root @ ''/'' @ s @ target_for_lib))))"

definition write_sdk_spec :: "filesystem \<Rightarrow> string \<Rightarrow> root \<Rightarrow> string option \<Rightarrow> sub_kind \<Rightarrow> string" where
  "write_sdk_spec fs f sdk target kind =
     (let f1 = fprintf f (''*'' @ spec kind @ ''_sdk_'' @ the (key sdk) @ '':\<newline>'');
          f2 = write_dirtree fs f1 sdk target kind
      in fprintf f2 ''\<newline>\<newline>'')"

text \<open>The two loops of \<open>write_main_spec\<close>, over the generic list and over the SDK list.\<close>

fun generic_loop :: "filesystem \<Rightarrow> string \<Rightarrow> string option \<Rightarrow> sub_kind \<Rightarrow> root list \<Rightarrow> string" where
  "generic_loop fs f target kind [] = f"
| "generic_loop fs f target kind (root # rest) =
     generic_loop fs (write_dirtree fs f root target kind) target kind rest"

definition sdk_guards :: "string \<Rightarrow> sub_kind \<Rightarrow> root \<Rightarrow> string" where
  "sdk_guards f kind sdk =
     (let k = the (key sdk);
          f1 = fprintf f ('' %{palmos'' @ k @ '':%('' @ spec kind @ ''_sdk_'' @ k @ '')}'')
      in if strspn k ''0123456789'' = strlen k
         then fprintf f1 ('' %{palmos'' @ k @ ''.0:%('' @ spec kind @ ''_sdk_'' @ k @ '')}'')
         else f1)"

fun sdk_loop :: "string \<Rightarrow> sub_kind \<Rightarrow> root list \<Rightarrow> string" where
  "sdk_loop f kind [] = f"
| "sdk_loop f kind (sdk # rest) = sdk_loop (sdk_guards f kind sdk) kind rest"

definition write_main_spec ::
    "filesystem \<Rightarrow> state \<Rightarrow> string \<Rightarrow> string option \<Rightarrow> root option \<Rightarrow> sub_kind \<Rightarrow> string" where
  "write_main_spec fs st f target default_sdk kind =
     (let f1 = fprintf f (''*'' @ spec kind @ '':\<newline>+ %{!palmos-none:'');
          f2 = generic_loop fs f1 target kind (generic_root_list st);
          f3 = sdk_loop f2 kind (sdk_root_list st);
          f4 =
            (case default_sdk of
               Some d \<Rightarrow> fprintf f3 ('' %{!palmos*: %('' @ spec kind @ ''_sdk_'' @ the (key d) @ '')}'')
             | None \<Rightarrow> f3)
      in fprintf f4 ''}\<newline>\<newline>'')"

fun sdk_spec_loop :: "filesystem \<Rightarrow> string \<Rightarrow> string option \<Rightarrow> root list \<Rightarrow> string" where
  "sdk_spec_loop fs f target [] = f"
| "sdk_spec_loop fs f target (sdk # rest) =
     sdk_spec_loop fs
       (write_sdk_spec fs (write_sdk_spec fs f sdk None include_kind) sdk target lib_kind)
       target rest"

definition write_specs :: "filesystem \<Rightarrow> state \<Rightarrow> string \<Rightarrow> string option \<Rightarrow> root option \<Rightarrow> string" where
  "write_specs fs st f target default_sdk =
     (let f1 = sdk_spec_loop fs f target (sdk_root_list st);
          f2 = write_main_spec fs st f1 None default_sdk include_kind
      in write_main_spec fs st f2 target default_sdk lib_kind)"

subsection \<open>The order of discovery, and the text of one reference\<close>

text \<open>
  A second description of the scan, for comparison with the one above: the SDK roots in
  the order in which the scan discovers and keeps them, every kept root added at the
  end. An entry is kept when it is an \<open>sdk-\<close> directory whose canonical key no kept root
  has and which has a headers subdirectory.
\<close>

definition kept_root :: "filesystem \<Rightarrow> string \<Rightarrow> string \<Rightarrow> root" where
  "kept_root fs pfx d = (make_root fs (pfx @ ''/'' @ d))\<lparr> key := Some (canonical_key d) \<rparr>"

definition has_headers :: "filesystem \<Rightarrow> string \<Rightarrow> bool" where
  "has_headers fs path = (is_dir fs (path @ ''/include'') \<or> is_dir fs (path @ ''/Incs''))"

definition is_new_sdk :: "filesystem \<Rightarrow> string \<Rightarrow> root list \<Rightarrow> string \<Rightarrow> bool" where
  "is_new_sdk fs pfx found d =
     (matches ''sdk-'' d \<and> is_dir_dirent fs d (pfx @ ''/'' @ d) \<and>
      Some (canonical_key d) \<notin> set (map key found) \<and>
      has_headers fs (pfx @ ''/'' @ d))"

fun discover_entries :: "filesystem \<Rightarrow> string \<Rightarrow> root list \<Rightarrow> string list \<Rightarrow> root list" where
  "discover_entries fs pfx found [] = found"
| "discover_entries fs pfx found (d # ds) =
     discover_entries fs pfx
       (if is_new_sdk fs pfx found d then found @ [kept_root fs pfx d] else found) ds"

fun discover_dirs :: "filesystem \<Rightarrow> root list \<Rightarrow> string list \<Rightarrow> root list" where
  "discover_dirs fs found [] = found"
| "discover_dirs fs found (p # ps) =
     discover_dirs fs
       (case opendir fs p of
          None \<Rightarrow> found
        | Some entries \<Rightarrow> discover_entries fs p found entries)
       ps"

definition discovered :: "filesystem \<Rightarrow> string \<Rightarrow> string list \<Rightarrow> root list" where
  "discovered fs PALMDEV_PREFIX args =
     discover_dirs fs [] (PALMDEV_PREFIX # filter (is_dir fs) args)"

text \<open>
  The condition under which a turn of the \<open>readdir\<close> loop puts a root on the SDK list,
  read off the code: the entry passes the loop's test, \<open>find\<close> has no root for its key,
  and the root made for it has headers.
\<close>

definition keeps :: "filesystem \<Rightarrow> string \<Rightarrow> root list \<Rightarrow> string \<Rightarrow> bool" where
  "keeps fs pfx sdks d =
     (matches ''sdk-'' d \<and> is_dir_dirent fs d (pfx @ ''/'' @ d) \<and>
      find_root sdks (Some (canonical_key d)) = None \<and> has_headers fs (pfx @ ''/'' @ d))"

text \<open>
  The text of one guarded reference of an umbrella block: the flag tested after
  \<open>palmos\<close>, and the key of the named block referred to.
\<close>

definition guarded_ref :: "sub_kind \<Rightarrow> string \<Rightarrow> string \<Rightarrow> string" where
  "guarded_ref kind flag k =
     '' %{palmos'' @ flag @ '':%('' @ spec kind @ ''_sdk_'' @ k @ '')}''"

definition default_ref :: "sub_kind \<Rightarrow> string \<Rightarrow> string" where
  "default_ref kind k = '' %{!palmos*: %('' @ spec kind @ ''_sdk_'' @ k @ '')}''"

definition all_digits :: "string \<Rightarrow> bool" where
  "all_digits k = (set k \<subseteq> set ''0123456789'')"

subsection \<open>Example installations\<close>

text \<open>
  An installation given by the listing of its scanned directories and the list of all
  its directories; the tree under a path is the listed directories at or below it.
\<close>

definition below :: "string \<Rightarrow> string \<Rightarrow> bool" where
  "below p q = (q = p \<or> take (Suc (length p)) q = p @ ''/'')"

definition installation :: "(string \<times> string list) list \<Rightarrow> string list \<Rightarrow> filesystem" where
  "installation listing dirs =
     \<lparr> opendir = map_of listing,
       is_dir = (\<lambda>p. p \<in> set dirs),
       is_dir_dirent = (\<lambda>d p. p \<in> set dirs),
       readtree = (\<lambda>p. filter (below p) dirs) \<rparr>"

text \<open>\<open>/a/sdk-5\<close> has libraries but no headers, \<open>/b/sdk-5\<close> has headers.\<close>

definition fs_headerless_first :: filesystem where
  "fs_headerless_first =
     installation
       [(''/a'', [''.'', ''..'', ''sdk-5'']), (''/b'', [''.'', ''..'', ''sdk-5''])]
       [''/a'', ''/a/sdk-5'', ''/a/sdk-5/lib'', ''/b'', ''/b/sdk-5'', ''/b/sdk-5/include'']"

text \<open>Both \<open>/a/sdk-5\<close> and \<open>/b/sdk-5.0\<close> have headers; \<open>/b/sdk-5.0\<close> is also scanned itself.\<close>

definition fs_two_sdk5 :: filesystem where
  "fs_two_sdk5 =
     installation
       [(''/a'', [''.'', ''..'', ''sdk-5'']), (''/b'', [''.'', ''..'', ''sdk-5.0'']),
        (''/b/sdk-5.0'', [''.'', ''..'', ''include''])]
       [''/a'', ''/a/sdk-5'', ''/a/sdk-5/include'', ''/b'', ''/b/sdk-5.0'',
        ''/b/sdk-5.0/include'']"

text \<open>
  \<open>/opt/palmdev\<close> with common headers, \<open>sdk-3.5\<close> (headers and libraries), \<open>sdk-4.0\<close>
  (headers in \<open>Incs\<close>), \<open>sdk-2\<close> (libraries only) and a plain file \<open>sdk-notes\<close>.
\<close>

definition fs_palmdev :: filesystem where
  "fs_palmdev =
     installation
       [(''/opt/palmdev'', [''.'', ''..'', ''include'', ''sdk-3.5'', ''sdk-2'', ''sdk-notes'', ''sdk-4.0''])]
       [''/opt/palmdev'', ''/opt/palmdev/include'',
        ''/opt/palmdev/sdk-3.5'', ''/opt/palmdev/sdk-3.5/include'',
        ''/opt/palmdev/sdk-3.5/include/Core UI'',
        ''/opt/palmdev/sdk-3.5/lib'', ''/opt/palmdev/sdk-3.5/lib/m68k-palmos-coff'',
        ''/opt/palmdev/sdk-2'', ''/opt/palmdev/sdk-2/lib'',
        ''/opt/palmdev/sdk-4.0'', ''/opt/palmdev/sdk-4.0/Incs'']"

text \<open>Three SDK roots with the keys \<open>3\<close>, \<open>10\<close> and \<open>9\<close>, as the scan stores them.\<close>

definition sdk_with_key :: "string \<Rightarrow> root" where
  "sdk_with_key k =
     \<lparr> prefix = ''/opt/palmdev/sdk-'' @ k, sub_include = Some ''include'', sub_lib = None,
       key = Some k \<rparr>"

definition state_3_10_9 :: state where
  "state_3_10_9 =
     init_state\<lparr> sdk_root_list := [sdk_with_key ''3'', sdk_with_key ''10'', sdk_with_key ''9''] \<rparr>"

text \<open>Two SDK roots with the keys \<open>3\<close> and \<open>4\<close>.\<close>

definition state_3_4 :: state where
  "state_3_4 = init_state\<lparr> sdk_root_list := [sdk_with_key ''3'', sdk_with_key ''4''] \<rparr>"

text \<open>
  No \<open>sdk-\<close> directory among the entries \<open>es\<close> of the directory \<open>pfx\<close> whose canonical
  key is \<open>k\<close> has a headers subdirectory.
\<close>

definition headerless_for :: "filesystem \<Rightarrow> string \<Rightarrow> string \<Rightarrow> string list \<Rightarrow> bool" where
  "headerless_for fs pfx k es =
     (\<forall>e\<in>set es.
        matches ''sdk-'' e \<and> is_dir_dirent fs e (pfx @ ''/'' @ e) \<and> canonical_key e = k \<longrightarrow>
        \<not> has_headers fs (pfx @ ''/'' @ e))"

text \<open>
  One directory with three entries of the key \<open>5\<close>: \<open>sdk-5.0\<close> (libraries only) is read
  first, then \<open>sdk-5\<close> and \<open>SDK-5.0\<close>, which both have headers.
\<close>

definition fs_same_dir :: filesystem where
  "fs_same_dir =
     installation
       [(''/c'', [''.'', ''..'', ''sdk-5.0'', ''sdk-5'', ''SDK-5.0''])]
       [''/c'', ''/c/sdk-5.0'', ''/c/sdk-5.0/lib'', ''/c/sdk-5'', ''/c/sdk-5/include'',
        ''/c/SDK-5.0'', ''/c/SDK-5.0/include'']"

section \<open>Properties of the string functions and of the canonical key\<close>

lemma strcmp_eq_0_iff: "strcmp a b = 0 \<longleftrightarrow> a = b"
  by (induction a b rule: strcmp.induct) auto

lemma strcmp_less_0_iff: "strcmp a b < 0 \<longleftrightarrow> a < b"
  by (induction a b rule: strcmp.induct) auto

lemma strcmp_greater_0_iff: "strcmp a b > 0 \<longleftrightarrow> b < a"
  by (induction a b rule: strcmp.induct) auto

lemma strrchr_dot0: "strrchr (t @ ''.0'') CHR ''.'' = Some (length t)"
  by (induction t) auto

lemma matches_length: "matches p s \<Longrightarrow> length p \<le> length s"
  by (induction p s rule: matches.induct) (auto split: if_splits)

text \<open>
  The truncation at the last dot removes the suffix \<open>.0\<close> when the string ends with it,
  and nothing otherwise.
\<close>

lemma truncate_dot0:
  "(case strrchr s CHR ''.'' of
      None \<Rightarrow> s
    | Some dot \<Rightarrow> if strcmp (drop dot s) ''.0'' = 0 then take dot s else s) =
   (if \<exists>t. s = t @ ''.0'' then take (length s - 2) s else s)"
proof (cases "\<exists>t. s = t @ ''.0''")
  case True
  then obtain t where s: "s = t @ ''.0''" by blast
  have "strrchr s CHR ''.'' = Some (length t)"
    unfolding s by (rule strrchr_dot0)
  then show ?thesis
    using True s by (simp add: strcmp_eq_0_iff)
next
  case False
  have "drop i s \<noteq> ''.0''" for i
  proof
    assume "drop i s = ''.0''"
    then have "s = take i s @ ''.0''"
      by (metis append_take_drop_id)
    with False show False by blast
  qed
  then show ?thesis
    using False by (simp add: strcmp_eq_0_iff split: option.splits)
qed

lemma canonical_key_eq:
  "canonical_key name =
     (if \<exists>t. skip_prefixes name = t @ ''.0''
      then take (length (skip_prefixes name) - 2) (skip_prefixes name)
      else skip_prefixes name)"
  unfolding canonical_key_def Let_def by (rule truncate_dot0)

lemma skip_prefixes_sdk: "skip_prefixes (''sdk-'' @ x) = x"
  by (simp add: skip_prefixes_def tolower_def)

lemma not_dot0_35: "''3.5'' \<noteq> u @ ''.0''"
proof
  assume "''3.5'' = u @ ''.0''"
  then have "last ''3.5'' = last (u @ ''.0'')" by simp
  then show False by simp
qed

lemma skip_prefixes_fixed:
  "skip_prefixes k = k \<longleftrightarrow> \<not> matches ''palmos'' k \<and> \<not> matches ''sdk-'' k"
proof -
  have "length (skip_prefixes k) < length k" if "matches ''palmos'' k \<or> matches ''sdk-'' k"
    using that matches_length [of "''palmos''" k] matches_length [of "''sdk-''" k]
    by (auto simp: skip_prefixes_def Let_def)
  then show ?thesis
    by (auto simp: skip_prefixes_def Let_def)
qed

lemma canonical_key_length: "length (canonical_key k) \<le> length (skip_prefixes k)"
  by (simp add: canonical_key_eq)

lemma canonical_key_fixed:
  "canonical_key k = k \<longleftrightarrow>
     \<not> matches ''palmos'' k \<and> \<not> matches ''sdk-'' k \<and> (\<forall>t. k \<noteq> t @ ''.0'')"
proof (cases "skip_prefixes k = k")
  case True
  then show ?thesis
    using skip_prefixes_fixed [of k] by (auto simp: canonical_key_eq)
next
  case False
  then have "length (skip_prefixes k) < length k"
    using matches_length [of "''palmos''" k] matches_length [of "''sdk-''" k]
    by (auto simp: skip_prefixes_def Let_def split: if_splits)
  then have "canonical_key k \<noteq> k"
    using canonical_key_length [of k] by auto
  then show ?thesis
    using False skip_prefixes_fixed [of k] by blast
qed

lemma canonical_key_examples:
  "canonical_key ''sdk-4.0'' = ''4''" "canonical_key ''PalmOSSDK-4.0'' = ''4''"
  "canonical_key ''sdk-4'' = ''4''"
  by (simp_all add: canonical_key_def skip_prefixes_def tolower_def)

section \<open>Properties of the spec synthesizer\<close>

text \<open>Every writing function appends to the file: what is already written stays.\<close>

lemma put_dir_append: "put_dir f s = f @ put_dir [] s"
proof (induction s arbitrary: f)
  case Nil
  show ?case by simp
next
  case (Cons c s)
  show ?case
    using Cons.IH [of "putc c (if isspace c then putc (CHR 0x5C) f else f)"]
      Cons.IH [of "putc c (if isspace c then putc (CHR 0x5C) [] else [])"]
    by (simp add: putc_def)
qed

lemma put_dir_escapes:
  "put_dir [] s = concat (map (\<lambda>c. if isspace c then [CHR 0x5C, c] else [c]) s)"
proof (induction s)
  case Nil
  show ?case by simp
next
  case (Cons c s)
  show ?case
    using put_dir_append [of "putc c (if isspace c then putc (CHR 0x5C) [] else [])" s] Cons.IH
    by (simp add: putc_def)
qed

lemma readtree_loop_append: "readtree_loop f kind dirs = f @ readtree_loop [] kind dirs"
proof (induction dirs arbitrary: f)
  case Nil
  show ?case by simp
next
  case (Cons dir dirs)
  show ?case
    using Cons.IH [of "put_dir (fprintf f ('' '' @ option kind)) dir"]
      Cons.IH [of "put_dir (fprintf [] ('' '' @ option kind)) dir"]
      put_dir_append [of "fprintf f ('' '' @ option kind)" dir]
      put_dir_append [of "fprintf [] ('' '' @ option kind)" dir]
    by (simp add: fprintf_def)
qed

lemma write_dirtree_append:
  "write_dirtree fs f root target kind = f @ write_dirtree fs [] root target kind"
  using readtree_loop_append [of f kind] by (simp add: write_dirtree_def split: option.splits)


lemma generic_loop_concat:
  "generic_loop fs f target kind roots =
     f @ concat (map (\<lambda>root. write_dirtree fs [] root target kind) roots)"
proof (induction roots arbitrary: f)
  case Nil
  show ?case by simp
next
  case (Cons root roots)
  show ?case
    using Cons.IH [of "write_dirtree fs f root target kind"]
      write_dirtree_append [of fs f root target kind]
    by simp
qed

lemma strspn_eq_length_iff: "strspn k accept = length k \<longleftrightarrow> set k \<subseteq> set accept"
proof (induction k)
  case Nil
  show ?case by simp
next
  case (Cons c k)
  show ?case using Cons.IH by auto
qed

lemma sdk_guards_text:
  "sdk_guards f kind sdk =
     f @ guarded_ref kind (the (key sdk)) (the (key sdk)) @
     (if all_digits (the (key sdk))
      then guarded_ref kind (the (key sdk) @ ''.0'') (the (key sdk))
      else [])"
  by (simp add: sdk_guards_def Let_def fprintf_def strlen_def strspn_eq_length_iff
      guarded_ref_def all_digits_def)

lemma sdk_guards_append: "sdk_guards f kind sdk = f @ sdk_guards [] kind sdk"
  using sdk_guards_text [of f kind sdk] sdk_guards_text [of "[]" kind sdk] by simp

lemma sdk_loop_concat: "sdk_loop f kind sdks = f @ concat (map (sdk_guards [] kind) sdks)"
proof (induction sdks arbitrary: f)
  case Nil
  show ?case by simp
next
  case (Cons sdk sdks)
  show ?case
    using Cons.IH [of "sdk_guards f kind sdk"] sdk_guards_append [of f kind sdk]
    by simp
qed


lemma write_main_spec_text:
  "write_main_spec fs st f target default_sdk kind =
     f @ ''*'' @ spec kind @ '':\<newline>+ %{!palmos-none:'' @
     concat (map (\<lambda>root. write_dirtree fs [] root target kind) (generic_root_list st)) @
     concat (map (sdk_guards [] kind) (sdk_root_list st)) @
     (case default_sdk of Some d \<Rightarrow> default_ref kind (the (key d)) | None \<Rightarrow> []) @
     ''}\<newline>\<newline>''"
  unfolding write_main_spec_def Let_def fprintf_def
  by (simp add: generic_loop_concat sdk_loop_concat default_ref_def split: option.splits)

text \<open>The generated text depends on the state through the two lists only.\<close>

lemma write_specs_cong:
  "generic_root_list st' = generic_root_list st \<Longrightarrow> sdk_root_list st' = sdk_root_list st \<Longrightarrow>
   write_specs fs st' f target default_sdk = write_specs fs st f target default_sdk"
  by (simp add: write_specs_def write_main_spec_def)

section \<open>Properties of the tree analyzer\<close>

subsection \<open>What the report functions leave alone\<close>

lemma printf_fields:
  "generic_root_list (printf s st) = generic_root_list st"
  "sdk_root_list (printf s st) = sdk_root_list st"
  "warnings (printf s st) = warnings st"
  "out (printf s st) = out st @ s"
  by (simp_all add: printf_def)

lemma warning_fields:
  "generic_root_list (warning m st) = generic_root_list st"
  "sdk_root_list (warning m st) = sdk_root_list st"
  "out (warning m st) = out st"
  "warnings (warning m st) = warnings st @ [m]"
  by (simp_all add: warning_def)

lemma print_report_overridden:
  "print_report name root (Some ov) headers_required st =
     printf (''  '' @ pad13 name @ [CHR 0x09] @ ''UNUSED -- hidden by '' @ prefix ov @ ''\<newline>'') st"
  by (simp add: printf_def)

lemma print_report_invalid:
  "sub_include r = None \<Longrightarrow>
   print_report name (Some r) None True st =
     printf (''  '' @ pad13 name @ [CHR 0x09] @ ''INVALID -- no headers\<newline>'') st"
  by (simp add: printf_def)

lemma print_report_root_lists:
  "generic_root_list (print_report name (Some r) None h st) = generic_root_list st"
  "sdk_root_list (print_report name (Some r) None h st) = sdk_root_list st"
  "warnings (print_report name (Some r) None h st) = warnings st"
  by (simp_all add: printf_def Let_def split: option.splits)

lemma print_report_overridden_lists:
  "generic_root_list (print_report name root (Some ov) h st) = generic_root_list st"
  "sdk_root_list (print_report name root (Some ov) h st) = sdk_root_list st"
  "warnings (print_report name root (Some ov) h st) = warnings st"
  by (simp_all add: printf_def)

subsection \<open>Lookup in the SDK list\<close>

lemma find_root_None_iff: "find_root l (Some k) = None \<longleftrightarrow> (\<forall>r\<in>set l. the (key r) \<noteq> k)"
  by (induction l) (auto simp: strcmp_eq_0_iff)

lemma find_root_SomeD: "find_root l (Some k) = Some r \<Longrightarrow> r \<in> set l \<and> the (key r) = k"
  by (induction l) (auto simp: strcmp_eq_0_iff split: if_splits)

lemma find_root_Cons_other:
  "the (key x) \<noteq> k \<Longrightarrow> find_root (x # l) (Some k) = find_root l (Some k)"
  by (simp add: strcmp_eq_0_iff)

lemma find_root_Cons_same: "the (key x) = k \<Longrightarrow> find_root (x # l) (Some k) = Some x"
  by (simp add: strcmp_eq_0_iff)

subsection \<open>The four cases of one turn of the loop\<close>

lemma make_root_fields:
  "prefix (make_root fs path) = path"
  "key (make_root fs path) = None"
  "sub_include (make_root fs path) \<noteq> None \<longleftrightarrow> has_headers fs path"
  by (simp_all add: make_root_def has_headers_def)

lemma kept_root_fields:
  "prefix (kept_root fs pfx d) = pfx @ ''/'' @ d"
  "key (kept_root fs pfx d) = Some (canonical_key d)"
  "sub_include (kept_root fs pfx d) \<noteq> None \<longleftrightarrow> has_headers fs (pfx @ ''/'' @ d)"
  using make_root_fields [of fs "pfx @ ''/'' @ d"] by (simp_all add: kept_root_def)

lemma scan_entry_skipped:
  "\<not> (matches ''sdk-'' d \<and> is_dir_dirent fs d (pfx @ ''/'' @ d)) \<Longrightarrow>
   scan_entry fs pfx report (st, n) d = (st, n)"
  by (auto simp: scan_entry_def)

lemma scan_entry_overridden:
  assumes "matches ''sdk-'' d" "is_dir_dirent fs d (pfx @ ''/'' @ d)"
    and "find_root (sdk_root_list st) (Some (canonical_key d)) = Some ov"
  shows "scan_entry fs pfx report (st, n) d =
           (if report
            then printf (''  '' @ pad13 d @ [CHR 0x09] @ ''UNUSED -- hidden by '' @ prefix ov @
                         ''\<newline>'') st
            else st, Suc n)"
  using assms by (simp add: scan_entry_def print_report_overridden del: print_report.simps)

lemma scan_entry_invalid:
  assumes "matches ''sdk-'' d" "is_dir_dirent fs d (pfx @ ''/'' @ d)"
    and "find_root (sdk_root_list st) (Some (canonical_key d)) = None"
    and "\<not> has_headers fs (pfx @ ''/'' @ d)"
  shows "scan_entry fs pfx report (st, n) d =
           (if report
            then printf (''  '' @ pad13 d @ [CHR 0x09] @ ''INVALID -- no headers\<newline>'') st
            else st, Suc n)"
proof -
  have "sub_include (make_root fs (pfx @ ''/'' @ d)) = None"
    using assms(4) make_root_fields(3) [of fs "pfx @ ''/'' @ d"] by simp
  then show ?thesis
    using assms(1-3) by (simp add: scan_entry_def print_report_invalid del: print_report.simps)
qed

lemma scan_entry_kept:
  assumes "matches ''sdk-'' d" "is_dir_dirent fs d (pfx @ ''/'' @ d)"
    and "find_root (sdk_root_list st) (Some (canonical_key d)) = None"
    and "has_headers fs (pfx @ ''/'' @ d)"
  shows "scan_entry fs pfx report (st, n) d =
           ((if report then print_report d (Some (make_root fs (pfx @ ''/'' @ d))) None True st
             else st)
            \<lparr> sdk_root_list := kept_root fs pfx d # sdk_root_list st \<rparr>, Suc n)"
proof -
  have "sub_include (make_root fs (pfx @ ''/'' @ d)) \<noteq> None"
    using assms(4) make_root_fields(3) [of fs "pfx @ ''/'' @ d"] by simp
  then show ?thesis
    using assms(1-3)
    by (simp add: scan_entry_def kept_root_def print_report_root_lists del: print_report.simps)
qed

lemma scan_entry_lists:
  "sdk_root_list (fst (scan_entry fs pfx report (st, n) d)) =
     (if keeps fs pfx (sdk_root_list st) d then kept_root fs pfx d # sdk_root_list st
      else sdk_root_list st)"
  "generic_root_list (fst (scan_entry fs pfx report (st, n) d)) = generic_root_list st"
  "warnings (fst (scan_entry fs pfx report (st, n) d)) = warnings st"
proof -
  consider (skip) "\<not> (matches ''sdk-'' d \<and> is_dir_dirent fs d (pfx @ ''/'' @ d))"
    | (over) ov where "matches ''sdk-'' d" "is_dir_dirent fs d (pfx @ ''/'' @ d)"
        "find_root (sdk_root_list st) (Some (canonical_key d)) = Some ov"
    | (inval) "matches ''sdk-'' d" "is_dir_dirent fs d (pfx @ ''/'' @ d)"
        "find_root (sdk_root_list st) (Some (canonical_key d)) = None"
        "\<not> has_headers fs (pfx @ ''/'' @ d)"
    | (kept) "matches ''sdk-'' d" "is_dir_dirent fs d (pfx @ ''/'' @ d)"
        "find_root (sdk_root_list st) (Some (canonical_key d)) = None"
        "has_headers fs (pfx @ ''/'' @ d)"
    by (cases "find_root (sdk_root_list st) (Some (canonical_key d))") auto
  then have
    "sdk_root_list (fst (scan_entry fs pfx report (st, n) d)) =
       (if keeps fs pfx (sdk_root_list st) d then kept_root fs pfx d # sdk_root_list st
        else sdk_root_list st) \<and>
     generic_root_list (fst (scan_entry fs pfx report (st, n) d)) = generic_root_list st \<and>
     warnings (fst (scan_entry fs pfx report (st, n) d)) = warnings st"
  proof cases
    case skip
    then show ?thesis
      using scan_entry_skipped [of d fs pfx report st n] by (auto simp: keeps_def)
  next
    case over
    then show ?thesis
      using scan_entry_overridden [of d fs pfx st ov report n]
      by (simp add: keeps_def printf_fields)
  next
    case inval
    then show ?thesis
      using scan_entry_invalid [of d fs pfx st report n]
      by (simp add: keeps_def printf_fields)
  next
    case kept
    then show ?thesis
      using scan_entry_kept [of d fs pfx st report n]
      by (simp add: keeps_def print_report_root_lists del: print_report.simps)
  qed
  then show
    "sdk_root_list (fst (scan_entry fs pfx report (st, n) d)) =
       (if keeps fs pfx (sdk_root_list st) d then kept_root fs pfx d # sdk_root_list st
        else sdk_root_list st)"
    "generic_root_list (fst (scan_entry fs pfx report (st, n) d)) = generic_root_list st"
    "warnings (fst (scan_entry fs pfx report (st, n) d)) = warnings st"
    by simp_all
qed

subsection \<open>The loop, one directory, all directories\<close>

lemma readdir_loop_generic:
  "generic_root_list (fst (readdir_loop fs pfx report sn es)) = generic_root_list (fst sn)"
proof (induction es arbitrary: sn)
  case Nil
  show ?case by simp
next
  case (Cons e es)
  obtain st n where sn: "sn = (st, n)" by (cases sn)
  show ?case
    using Cons.IH [of "scan_entry fs pfx report sn e"]
      scan_entry_lists(2) [of fs pfx report st n e]
    by (simp add: sn)
qed

lemma readdir_loop_warnings:
  "warnings (fst (readdir_loop fs pfx report sn es)) = warnings (fst sn)"
proof (induction es arbitrary: sn)
  case Nil
  show ?case by simp
next
  case (Cons e es)
  obtain st n where sn: "sn = (st, n)" by (cases sn)
  show ?case
    using Cons.IH [of "scan_entry fs pfx report sn e"]
      scan_entry_lists(3) [of fs pfx report st n e]
    by (simp add: sn)
qed

lemma analyze_sdk_list:
  "sdk_root_list (analyze_palmdev_tree fs pfx report st) =
     (case opendir fs pfx of
        None \<Rightarrow> sdk_root_list st
      | Some es \<Rightarrow>
          sdk_root_list (fst (readdir_loop fs pfx report
            (if report then printf (''Checking SDKs in '' @ pfx @ ''\<newline>'') st else st, 0) es)))"
  unfolding analyze_palmdev_tree_def Let_def
  by (simp add: printf_fields print_report_root_lists split: option.splits
      del: print_report.simps)

lemma analyze_generic_list:
  "generic_root_list (analyze_palmdev_tree fs pfx report st) =
     (case opendir fs pfx of
        None \<Rightarrow> generic_root_list st
      | Some es \<Rightarrow>
          (if sub_include (make_root fs pfx) \<noteq> None \<or> sub_lib (make_root fs pfx) \<noteq> None
           then generic_root_list st @ [make_root fs pfx]
           else generic_root_list st))"
  unfolding analyze_palmdev_tree_def Let_def
  by (simp add: printf_fields print_report_root_lists readdir_loop_generic
      readdir_loop_warnings split: option.splits del: print_report.simps)

lemma analyze_warnings: "warnings (analyze_palmdev_tree fs pfx report st) = warnings st"
  unfolding analyze_palmdev_tree_def Let_def
  by (simp add: printf_fields print_report_root_lists readdir_loop_generic
      readdir_loop_warnings split: option.splits del: print_report.simps)

subsection \<open>A root found for a key stays the root found for it\<close>

lemma keeps_find_stable:
  assumes "find_root sdks (Some k) = Some r"
  shows "find_root (if keeps fs pfx sdks d then kept_root fs pfx d # sdks else sdks) (Some k) = Some r"
proof (cases "keeps fs pfx sdks d")
  case True
  then have "find_root sdks (Some (canonical_key d)) = None"
    by (simp add: keeps_def)
  with assms have "canonical_key d \<noteq> k" by auto
  then have "the (key (kept_root fs pfx d)) \<noteq> k"
    by (simp add: kept_root_fields)
  then show ?thesis
    using True assms find_root_Cons_other [of "kept_root fs pfx d" k sdks] by simp
next
  case False
  then show ?thesis using assms by simp
qed

lemma readdir_loop_find_stable:
  "find_root (sdk_root_list (fst sn)) (Some k) = Some r \<Longrightarrow>
   find_root (sdk_root_list (fst (readdir_loop fs pfx report sn es))) (Some k) = Some r"
proof (induction es arbitrary: sn)
  case Nil
  then show ?case by simp
next
  case (Cons e es)
  obtain st n where sn: "sn = (st, n)" by (cases sn)
  have "find_root (sdk_root_list (fst (scan_entry fs pfx report sn e))) (Some k) = Some r"
    using Cons.prems keeps_find_stable [of "sdk_root_list st" k r fs pfx e]
    by (simp add: sn scan_entry_lists(1))
  then show ?case
    using Cons.IH [of "scan_entry fs pfx report sn e"] by simp
qed

lemma analyze_find_stable:
  assumes "find_root (sdk_root_list st) (Some k) = Some r"
  shows "find_root (sdk_root_list (analyze_palmdev_tree fs pfx report st)) (Some k) = Some r"
proof (cases "opendir fs pfx")
  case None
  then show ?thesis using assms by (simp add: analyze_sdk_list)
next
  case (Some es)
  let ?st1 = "if report then printf (''Checking SDKs in '' @ pfx @ ''\<newline>'') st else st"
  have "find_root (sdk_root_list (fst (?st1, 0::nat))) (Some k) = Some r"
    using assms by (simp add: printf_fields)
  then have "find_root (sdk_root_list (fst (readdir_loop fs pfx report (?st1, 0) es))) (Some k) = Some r"
    by (rule readdir_loop_find_stable)
  then show ?thesis
    using Some by (simp add: analyze_sdk_list)
qed

lemma scan_args_find_stable:
  "find_root (sdk_root_list st) (Some k) = Some r \<Longrightarrow>
   find_root (sdk_root_list (scan_args fs report st args)) (Some k) = Some r"
proof (induction args arbitrary: st)
  case Nil
  then show ?case by simp
next
  case (Cons a args)
  let ?st' = "if is_dir fs a then analyze_palmdev_tree fs a report st
              else warning (''can'' @ [CHR 0x27] @ ''t open '' @ [CHR 0x27] @ a @ [CHR 0x27] @ '': @P'') st"
  have "find_root (sdk_root_list ?st') (Some k) = Some r"
    using Cons.prems analyze_find_stable [of st k r fs a report] by (simp add: warning_fields)
  then show ?case
    using Cons.IH [of ?st'] by simp
qed

subsection \<open>The SDK list is the discovery order, reversed\<close>

lemma keeps_iff_is_new_sdk:
  assumes "None \<notin> set (map key sdks)"
  shows "keeps fs pfx sdks d = is_new_sdk fs pfx (rev sdks) d"
proof -
  have "(\<forall>r\<in>set sdks. the (key r) \<noteq> k) \<longleftrightarrow> Some k \<notin> set (map key sdks)" for k
  proof
    assume a: "\<forall>r\<in>set sdks. the (key r) \<noteq> k"
    show "Some k \<notin> set (map key sdks)"
    proof
      assume "Some k \<in> set (map key sdks)"
      then obtain r where "r \<in> set sdks" "key r = Some k" by auto
      with a show False by auto
    qed
  next
    assume b: "Some k \<notin> set (map key sdks)"
    show "\<forall>r\<in>set sdks. the (key r) \<noteq> k"
    proof
      fix r assume r: "r \<in> set sdks"
      then have "key r \<in> set (map key sdks)" by simp
      then have "key r \<noteq> None" using assms by metis
      then obtain k' where k': "key r = Some k'" by auto
      with r b have "k' \<noteq> k" by force
      then show "the (key r) \<noteq> k" using k' by simp
    qed
  qed
  then show ?thesis
    by (simp add: keeps_def is_new_sdk_def find_root_None_iff)
qed

lemma readdir_loop_sdks:
  "None \<notin> set (map key (sdk_root_list (fst sn))) \<Longrightarrow>
   sdk_root_list (fst (readdir_loop fs pfx report sn es)) =
     rev (discover_entries fs pfx (rev (sdk_root_list (fst sn))) es)"
proof (induction es arbitrary: sn)
  case Nil
  show ?case by simp
next
  case (Cons e es)
  obtain st n where sn: "sn = (st, n)" by (cases sn)
  let ?l = "sdk_root_list st"
  let ?l' = "if is_new_sdk fs pfx (rev ?l) e then kept_root fs pfx e # ?l else ?l"
  have l': "sdk_root_list (fst (scan_entry fs pfx report sn e)) = ?l'"
    using Cons.prems keeps_iff_is_new_sdk [of ?l fs pfx e]
    by (simp add: sn scan_entry_lists(1))
  have "None \<notin> set (map key ?l')"
    using Cons.prems by (simp add: sn kept_root_fields)
  then have "sdk_root_list (fst (readdir_loop fs pfx report (scan_entry fs pfx report sn e) es)) =
               rev (discover_entries fs pfx (rev ?l') es)"
    using Cons.IH [of "scan_entry fs pfx report sn e"] l' by simp
  then show ?case
    by (simp add: sn)
qed

lemma discover_entries_keyed:
  "None \<notin> set (map key found) \<Longrightarrow> None \<notin> set (map key (discover_entries fs pfx found es))"
proof (induction es arbitrary: found)
  case Nil
  then show ?case by simp
next
  case (Cons e es)
  have "None \<notin> set (map key (if is_new_sdk fs pfx found e then found @ [kept_root fs pfx e] else found))"
    using Cons.prems by (simp add: kept_root_fields)
  then show ?case
    using Cons.IH by simp
qed

lemma analyze_sdks:
  assumes "None \<notin> set (map key (sdk_root_list st))"
  shows "sdk_root_list (analyze_palmdev_tree fs pfx report st) =
           rev (case opendir fs pfx of
                  None \<Rightarrow> rev (sdk_root_list st)
                | Some es \<Rightarrow> discover_entries fs pfx (rev (sdk_root_list st)) es)"
proof (cases "opendir fs pfx")
  case None
  then show ?thesis by (simp add: analyze_sdk_list)
next
  case (Some es)
  let ?st1 = "if report then printf (''Checking SDKs in '' @ pfx @ ''\<newline>'') st else st"
  have "None \<notin> set (map key (sdk_root_list (fst (?st1, 0::nat))))"
    using assms by (simp add: printf_fields)
  then have "sdk_root_list (fst (readdir_loop fs pfx report (?st1, 0) es)) =
               rev (discover_entries fs pfx (rev (sdk_root_list (fst (?st1, 0::nat)))) es)"
    by (rule readdir_loop_sdks)
  then show ?thesis
    using Some by (simp add: analyze_sdk_list printf_fields)
qed

lemma scan_args_sdks:
  "None \<notin> set (map key (sdk_root_list st)) \<Longrightarrow>
   sdk_root_list (scan_args fs report st args) =
     rev (discover_dirs fs (rev (sdk_root_list st)) (filter (is_dir fs) args))"
proof (induction args arbitrary: st)
  case Nil
  show ?case by simp
next
  case (Cons a args)
  show ?case
  proof (cases "is_dir fs a")
    case False
    then show ?thesis
      using Cons.IH [of "warning (''can'' @ [CHR 0x27] @ ''t open '' @ [CHR 0x27] @ a @ [CHR 0x27] @ '': @P'') st"]
        Cons.prems
      by (simp add: warning_fields)
  next
    case True
    let ?st' = "analyze_palmdev_tree fs a report st"
    let ?found = "case opendir fs a of
                    None \<Rightarrow> rev (sdk_root_list st)
                  | Some es \<Rightarrow> discover_entries fs a (rev (sdk_root_list st)) es"
    have l: "sdk_root_list ?st' = rev ?found"
      using Cons.prems by (rule analyze_sdks)
    have "None \<notin> set (map key ?found)"
      using Cons.prems discover_entries_keyed [of "rev (sdk_root_list st)" fs a]
      by (cases "opendir fs a") simp_all
    then have "None \<notin> set (map key (sdk_root_list ?st'))"
      using l by simp
    then have "sdk_root_list (scan_args fs report ?st' args) =
                 rev (discover_dirs fs (rev (sdk_root_list ?st')) (filter (is_dir fs) args))"
      by (rule Cons.IH)
    then show ?thesis
      using True l by simp
  qed
qed

lemma scan_all_sdks:
  "sdk_root_list (scan_all fs PALMDEV_PREFIX report args) = rev (discovered fs PALMDEV_PREFIX args)"
proof -
  let ?st = "analyze_palmdev_tree fs PALMDEV_PREFIX report init_state"
  let ?found = "case opendir fs PALMDEV_PREFIX of
                  None \<Rightarrow> []
                | Some es \<Rightarrow> discover_entries fs PALMDEV_PREFIX [] es"
  have e: "sdk_root_list init_state = []"
    by (simp add: init_state_def)
  have l: "sdk_root_list ?st = rev ?found"
    using analyze_sdks [of init_state fs PALMDEV_PREFIX report] unfolding e
    by (simp split: option.splits)
  have "None \<notin> set (map key ?found)"
    using discover_entries_keyed [of "[]" fs PALMDEV_PREFIX]
    by (cases "opendir fs PALMDEV_PREFIX") simp_all
  then have "None \<notin> set (map key (sdk_root_list ?st))"
    using l by simp
  then have "sdk_root_list (scan_args fs report ?st args) =
               rev (discover_dirs fs (rev (sdk_root_list ?st)) (filter (is_dir fs) args))"
    by (rule scan_args_sdks)
  then show ?thesis
    using l by (simp add: scan_all_def discovered_def)
qed

text \<open>Every root of the SDK list has its key set, so \<open>find\<close> and the writers read a key.\<close>

lemma discover_dirs_keyed:
  "None \<notin> set (map key found) \<Longrightarrow> None \<notin> set (map key (discover_dirs fs found ps))"
proof (induction ps arbitrary: found)
  case Nil
  then show ?case by simp
next
  case (Cons p ps)
  have "None \<notin> set (map key (case opendir fs p of None \<Rightarrow> found
                               | Some es \<Rightarrow> discover_entries fs p found es))"
    using Cons.prems discover_entries_keyed [of found fs p]
    by (cases "opendir fs p") simp_all
  then show ?case
    using Cons.IH by simp
qed

lemma scan_all_keys_set:
  "None \<notin> set (map key (sdk_root_list (scan_all fs PALMDEV_PREFIX report args)))"
proof -
  have "None \<notin> set (map key (discovered fs PALMDEV_PREFIX args))"
    using discover_dirs_keyed [of "[]" fs "PALMDEV_PREFIX # filter (is_dir fs) args"]
    unfolding discovered_def by simp
  then show ?thesis
    by (simp add: scan_all_sdks)
qed

subsection \<open>What the discovered roots are\<close>

lemma discover_entries_headers:
  "\<forall>r\<in>set found. has_headers fs (prefix r) \<Longrightarrow>
   \<forall>r\<in>set (discover_entries fs pfx found es). has_headers fs (prefix r)"
proof (induction es arbitrary: found)
  case Nil
  then show ?case by simp
next
  case (Cons e es)
  have "\<forall>r\<in>set (if is_new_sdk fs pfx found e then found @ [kept_root fs pfx e] else found).
          has_headers fs (prefix r)"
    using Cons.prems by (simp add: is_new_sdk_def kept_root_fields)
  then show ?case
    using Cons.IH by simp
qed

lemma discover_dirs_headers:
  "\<forall>r\<in>set found. has_headers fs (prefix r) \<Longrightarrow>
   \<forall>r\<in>set (discover_dirs fs found ps). has_headers fs (prefix r)"
proof (induction ps arbitrary: found)
  case Nil
  then show ?case by simp
next
  case (Cons p ps)
  have "\<forall>r\<in>set (case opendir fs p of None \<Rightarrow> found
                   | Some es \<Rightarrow> discover_entries fs p found es). has_headers fs (prefix r)"
    using Cons.prems discover_entries_headers [of found fs p]
    by (cases "opendir fs p") simp_all
  then show ?case
    using Cons.IH by simp
qed

lemma scan_all_headers:
  "r \<in> set (sdk_root_list (scan_all fs PALMDEV_PREFIX report args)) \<Longrightarrow>
   has_headers fs (prefix r)"
  using discover_dirs_headers [of "[]" fs "PALMDEV_PREFIX # filter (is_dir fs) args"]
  by (simp add: scan_all_sdks discovered_def)

lemma discover_entries_sub_include:
  "\<forall>r\<in>set found. sub_include r \<noteq> None \<Longrightarrow>
   \<forall>r\<in>set (discover_entries fs pfx found es). sub_include r \<noteq> None"
proof (induction es arbitrary: found)
  case Nil
  then show ?case by simp
next
  case (Cons e es)
  have "\<forall>r\<in>set (if is_new_sdk fs pfx found e then found @ [kept_root fs pfx e] else found).
          sub_include r \<noteq> None"
    using Cons.prems kept_root_fields(3) [of fs pfx e] by (simp add: is_new_sdk_def)
  then show ?case
    using Cons.IH by simp
qed

lemma discover_dirs_sub_include:
  "\<forall>r\<in>set found. sub_include r \<noteq> None \<Longrightarrow>
   \<forall>r\<in>set (discover_dirs fs found ps). sub_include r \<noteq> None"
proof (induction ps arbitrary: found)
  case Nil
  then show ?case by simp
next
  case (Cons p ps)
  have "\<forall>r\<in>set (case opendir fs p of None \<Rightarrow> found
                   | Some es \<Rightarrow> discover_entries fs p found es). sub_include r \<noteq> None"
    using Cons.prems discover_entries_sub_include [of found fs p]
    by (cases "opendir fs p") simp_all
  then show ?case
    using Cons.IH by simp
qed

lemma discover_entries_distinct:
  "distinct (map key found) \<Longrightarrow> distinct (map key (discover_entries fs pfx found es))"
proof (induction es arbitrary: found)
  case Nil
  then show ?case by simp
next
  case (Cons e es)
  have "distinct (map key (if is_new_sdk fs pfx found e then found @ [kept_root fs pfx e] else found))"
    using Cons.prems by (simp add: is_new_sdk_def kept_root_fields)
  then show ?case
    using Cons.IH by simp
qed

lemma discover_dirs_distinct:
  "distinct (map key found) \<Longrightarrow> distinct (map key (discover_dirs fs found ps))"
proof (induction ps arbitrary: found)
  case Nil
  then show ?case by simp
next
  case (Cons p ps)
  have "distinct (map key (case opendir fs p of None \<Rightarrow> found
                           | Some es \<Rightarrow> discover_entries fs p found es))"
    using Cons.prems discover_entries_distinct [of found fs p]
    by (cases "opendir fs p") simp_all
  then show ?case
    using Cons.IH by simp
qed

lemma scan_all_distinct_keys:
  "distinct (map key (sdk_root_list (scan_all fs PALMDEV_PREFIX report args)))"
proof -
  have "distinct (map key (discovered fs PALMDEV_PREFIX args))"
    using discover_dirs_distinct [of "[]" fs "PALMDEV_PREFIX # filter (is_dir fs) args"]
    unfolding discovered_def by simp
  then have "distinct (rev (map key (discovered fs PALMDEV_PREFIX args)))"
    by (simp only: distinct_rev)
  then show ?thesis
    by (simp only: scan_all_sdks rev_map)
qed

subsection \<open>The first directory with headers is the one stored for its key\<close>

lemma readdir_loop_append:
  "readdir_loop fs pfx report sn (xs @ ys) =
     readdir_loop fs pfx report (readdir_loop fs pfx report sn xs) ys"
  by (induction xs arbitrary: sn) simp_all

lemma headerless_for_Cons:
  "headerless_for fs pfx k (e # es) \<longleftrightarrow>
     (matches ''sdk-'' e \<and> is_dir_dirent fs e (pfx @ ''/'' @ e) \<and> canonical_key e = k \<longrightarrow>
      \<not> has_headers fs (pfx @ ''/'' @ e)) \<and>
     headerless_for fs pfx k es"
  by (simp add: headerless_for_def)

lemma keeps_find_None:
  assumes "find_root sdks (Some k) = None"
    and "keeps fs pfx sdks e \<Longrightarrow> canonical_key e \<noteq> k"
  shows "find_root (if keeps fs pfx sdks e then kept_root fs pfx e # sdks else sdks) (Some k) = None"
proof (cases "keeps fs pfx sdks e")
  case True
  then have "the (key (kept_root fs pfx e)) \<noteq> k"
    using assms(2) by (simp add: kept_root_fields)
  then show ?thesis
    using True assms(1) find_root_Cons_other [of "kept_root fs pfx e" k sdks] by simp
next
  case False
  then show ?thesis using assms(1) by simp
qed

lemma readdir_loop_find_None:
  "find_root (sdk_root_list (fst sn)) (Some k) = None \<Longrightarrow> headerless_for fs pfx k es \<Longrightarrow>
   find_root (sdk_root_list (fst (readdir_loop fs pfx report sn es))) (Some k) = None"
proof (induction es arbitrary: sn)
  case Nil
  then show ?case by simp
next
  case (Cons e es)
  obtain st n where sn: "sn = (st, n)" by (cases sn)
  have h: "matches ''sdk-'' e \<and> is_dir_dirent fs e (pfx @ ''/'' @ e) \<and> canonical_key e = k \<longrightarrow>
           \<not> has_headers fs (pfx @ ''/'' @ e)"
    and rest: "headerless_for fs pfx k es"
    using Cons.prems(2) by (simp_all add: headerless_for_Cons)
  have "canonical_key e \<noteq> k" if "keeps fs pfx (sdk_root_list st) e"
    using that h by (auto simp: keeps_def)
  then have "find_root (sdk_root_list (fst (scan_entry fs pfx report sn e))) (Some k) = None"
    using Cons.prems(1) keeps_find_None [of "sdk_root_list st" k fs pfx e]
    by (simp add: sn scan_entry_lists(1))
  then show ?case
    using Cons.IH [of "scan_entry fs pfx report sn e"] rest by simp
qed

lemma readdir_loop_first_with_headers:
  assumes "find_root (sdk_root_list (fst sn)) (Some (canonical_key d)) = None"
    and "matches ''sdk-'' d" "is_dir_dirent fs d (pfx @ ''/'' @ d)"
    and "has_headers fs (pfx @ ''/'' @ d)"
    and "headerless_for fs pfx (canonical_key d) es1"
  shows "find_root (sdk_root_list (fst (readdir_loop fs pfx report sn (es1 @ d # es2))))
           (Some (canonical_key d)) = Some (kept_root fs pfx d)"
proof -
  define sn1 where "sn1 = readdir_loop fs pfx report sn es1"
  obtain st1 n1 where sn1: "sn1 = (st1, n1)" by (cases sn1)
  have none1: "find_root (sdk_root_list st1) (Some (canonical_key d)) = None"
    using readdir_loop_find_None [OF assms(1) assms(5), of report] sn1 unfolding sn1_def by simp
  then have "keeps fs pfx (sdk_root_list st1) d"
    using assms(2-4) by (simp add: keeps_def)
  then have "sdk_root_list (fst (scan_entry fs pfx report (st1, n1) d)) =
               kept_root fs pfx d # sdk_root_list st1"
    by (simp add: scan_entry_lists(1))
  then have "find_root (sdk_root_list (fst (scan_entry fs pfx report sn1 d)))
               (Some (canonical_key d)) = Some (kept_root fs pfx d)"
    using find_root_Cons_same [of "kept_root fs pfx d" "canonical_key d" "sdk_root_list st1"]
    by (simp add: sn1 kept_root_fields)
  then have "find_root (sdk_root_list (fst (readdir_loop fs pfx report
               (scan_entry fs pfx report sn1 d) es2)))
               (Some (canonical_key d)) = Some (kept_root fs pfx d)"
    by (rule readdir_loop_find_stable)
  then show ?thesis
    by (simp add: readdir_loop_append sn1_def)
qed

lemma analyze_find_None:
  assumes "find_root (sdk_root_list st) (Some k) = None"
    and "case opendir fs pfx of None \<Rightarrow> True | Some es \<Rightarrow> headerless_for fs pfx k es"
  shows "find_root (sdk_root_list (analyze_palmdev_tree fs pfx report st)) (Some k) = None"
proof (cases "opendir fs pfx")
  case None
  then show ?thesis using assms(1) by (simp add: analyze_sdk_list)
next
  case (Some es)
  let ?st1 = "if report then printf (''Checking SDKs in '' @ pfx @ ''\<newline>'') st else st"
  have "find_root (sdk_root_list (fst (?st1, 0::nat))) (Some k) = None"
    using assms(1) by (simp add: printf_fields)
  moreover have "headerless_for fs pfx k es"
    using assms(2) Some by simp
  ultimately have "find_root (sdk_root_list (fst (readdir_loop fs pfx report (?st1, 0) es)))
                     (Some k) = None"
    by (rule readdir_loop_find_None)
  then show ?thesis
    using Some by (simp add: analyze_sdk_list)
qed

lemma analyze_first_with_headers:
  assumes "opendir fs pfx = Some (es1 @ d # es2)"
    and "find_root (sdk_root_list st) (Some (canonical_key d)) = None"
    and "matches ''sdk-'' d" "is_dir_dirent fs d (pfx @ ''/'' @ d)"
    and "has_headers fs (pfx @ ''/'' @ d)"
    and "headerless_for fs pfx (canonical_key d) es1"
  shows "find_root (sdk_root_list (analyze_palmdev_tree fs pfx report st))
           (Some (canonical_key d)) = Some (kept_root fs pfx d)"
proof -
  let ?st1 = "if report then printf (''Checking SDKs in '' @ pfx @ ''\<newline>'') st else st"
  have "find_root (sdk_root_list (fst (?st1, 0::nat))) (Some (canonical_key d)) = None"
    using assms(2) by (simp add: printf_fields)
  then have "find_root (sdk_root_list (fst (readdir_loop fs pfx report (?st1, 0) (es1 @ d # es2))))
               (Some (canonical_key d)) = Some (kept_root fs pfx d)"
    using assms(3-6) by (rule readdir_loop_first_with_headers)
  then show ?thesis
    using assms(1) by (simp add: analyze_sdk_list)
qed

lemma scan_all_first_dir_with_headers:
  assumes "opendir fs PALMDEV_PREFIX = Some (es1 @ d # es2)"
    and "matches ''sdk-'' d" "is_dir_dirent fs d (PALMDEV_PREFIX @ ''/'' @ d)"
    and "has_headers fs (PALMDEV_PREFIX @ ''/'' @ d)"
    and "headerless_for fs PALMDEV_PREFIX (canonical_key d) es1"
  shows "find_root (sdk_root_list (scan_all fs PALMDEV_PREFIX report args))
           (Some (canonical_key d)) = Some (kept_root fs PALMDEV_PREFIX d)"
proof -
  have "find_root (sdk_root_list init_state) (Some (canonical_key d)) = None"
    by (simp add: init_state_def)
  with assms(1) have "find_root (sdk_root_list (analyze_palmdev_tree fs PALMDEV_PREFIX report init_state))
               (Some (canonical_key d)) = Some (kept_root fs PALMDEV_PREFIX d)"
    using assms(2-5) by (rule analyze_first_with_headers)
  then show ?thesis
    unfolding scan_all_def by (rule scan_args_find_stable)
qed

lemma scan_all_second_dir_with_headers:
  assumes "case opendir fs PALMDEV_PREFIX of
             None \<Rightarrow> True
           | Some es \<Rightarrow> headerless_for fs PALMDEV_PREFIX (canonical_key d) es"
    and "is_dir fs pfx" "opendir fs pfx = Some (es1 @ d # es2)"
    and "matches ''sdk-'' d" "is_dir_dirent fs d (pfx @ ''/'' @ d)"
    and "has_headers fs (pfx @ ''/'' @ d)"
    and "headerless_for fs pfx (canonical_key d) es1"
  shows "find_root (sdk_root_list (scan_all fs PALMDEV_PREFIX report (pfx # args)))
           (Some (canonical_key d)) = Some (kept_root fs pfx d)"
proof -
  let ?st = "analyze_palmdev_tree fs PALMDEV_PREFIX report init_state"
  have "find_root (sdk_root_list init_state) (Some (canonical_key d)) = None"
    by (simp add: init_state_def)
  then have "find_root (sdk_root_list ?st) (Some (canonical_key d)) = None"
    using assms(1) by (rule analyze_find_None)
  with assms(3) have "find_root (sdk_root_list (analyze_palmdev_tree fs pfx report ?st))
               (Some (canonical_key d)) = Some (kept_root fs pfx d)"
    using assms(4-7) by (rule analyze_first_with_headers)
  then have "find_root (sdk_root_list (scan_args fs report (analyze_palmdev_tree fs pfx report ?st) args))
               (Some (canonical_key d)) = Some (kept_root fs pfx d)"
    by (rule scan_args_find_stable)
  then show ?thesis
    using assms(2) by (simp add: scan_all_def)
qed

section \<open>Properties of the default SDK selection\<close>

text \<open>
  The loop returns either the root it started with, when no root of the list has a
  greater key, or the first root of the list whose key is greatest.
\<close>

lemma highest_loop_step:
  "highest_loop d (x # l) = highest_loop (if the (key d) < the (key x) then x else d) l"
  by (simp add: strcmp_greater_0_iff)

lemma highest_loop_first_greatest:
  "(highest_loop d l = d \<and> (\<forall>s\<in>set l. the (key s) \<le> the (key d))) \<or>
   (\<exists>ys zs. l = ys @ highest_loop d l # zs \<and>
      the (key d) < the (key (highest_loop d l)) \<and>
      (\<forall>s\<in>set ys. the (key s) < the (key (highest_loop d l))) \<and>
      (\<forall>s\<in>set zs. the (key s) \<le> the (key (highest_loop d l))))"
proof (induction l arbitrary: d)
  case Nil
  show ?case by simp
next
  case (Cons x l)
  define h where "h = highest_loop d (x # l)"
  have goal: "(h = d \<and> (\<forall>s\<in>set (x # l). the (key s) \<le> the (key d))) \<or>
    (\<exists>ys zs. x # l = ys @ h # zs \<and> the (key d) < the (key h) \<and>
       (\<forall>s\<in>set ys. the (key s) < the (key h)) \<and> (\<forall>s\<in>set zs. the (key s) \<le> the (key h)))"
  proof (cases "the (key d) < the (key x)")
    case True
    then have step: "h = highest_loop x l"
      unfolding h_def by (simp only: highest_loop_step if_True)
    from Cons.IH [of x] show ?thesis
    proof
      assume a: "highest_loop x l = x \<and> (\<forall>s\<in>set l. the (key s) \<le> the (key x))"
      then have hx: "h = x" using step by simp
      have "x # l = [] @ h # l \<and> the (key d) < the (key h) \<and>
            (\<forall>s\<in>set []. the (key s) < the (key h)) \<and> (\<forall>s\<in>set l. the (key s) \<le> the (key h))"
        using a True hx by simp
      then show ?thesis by (intro disjI2 exI)
    next
      assume "\<exists>ys zs. l = ys @ highest_loop x l # zs \<and>
        the (key x) < the (key (highest_loop x l)) \<and>
        (\<forall>s\<in>set ys. the (key s) < the (key (highest_loop x l))) \<and>
        (\<forall>s\<in>set zs. the (key s) \<le> the (key (highest_loop x l)))"
      then obtain ys zs where b: "l = ys @ h # zs" "the (key x) < the (key h)"
        "\<forall>s\<in>set ys. the (key s) < the (key h)" "\<forall>s\<in>set zs. the (key s) \<le> the (key h)"
        unfolding step [symmetric] by blast
      have "x # l = (x # ys) @ h # zs"
        using b(1) by simp
      moreover have "the (key d) < the (key h)"
        using True b(2) by (rule less_trans)
      moreover have "\<forall>s\<in>set (x # ys). the (key s) < the (key h)"
        using b(2,3) by simp
      ultimately have "x # l = (x # ys) @ h # zs \<and> the (key d) < the (key h) \<and>
            (\<forall>s\<in>set (x # ys). the (key s) < the (key h)) \<and> (\<forall>s\<in>set zs. the (key s) \<le> the (key h))"
        using b(4) by simp
      then show ?thesis by (intro disjI2 exI)
    qed
  next
    case False
    then have step: "h = highest_loop d l"
      unfolding h_def by (simp only: highest_loop_step if_False)
    from False have xd: "the (key x) \<le> the (key d)" by simp
    from Cons.IH [of d] show ?thesis
    proof
      assume a: "highest_loop d l = d \<and> (\<forall>s\<in>set l. the (key s) \<le> the (key d))"
      then have "h = d \<and> (\<forall>s\<in>set (x # l). the (key s) \<le> the (key d))"
        using step xd by simp
      then show ?thesis by (rule disjI1)
    next
      assume "\<exists>ys zs. l = ys @ highest_loop d l # zs \<and>
        the (key d) < the (key (highest_loop d l)) \<and>
        (\<forall>s\<in>set ys. the (key s) < the (key (highest_loop d l))) \<and>
        (\<forall>s\<in>set zs. the (key s) \<le> the (key (highest_loop d l)))"
      then obtain ys zs where b: "l = ys @ h # zs" "the (key d) < the (key h)"
        "\<forall>s\<in>set ys. the (key s) < the (key h)" "\<forall>s\<in>set zs. the (key s) \<le> the (key h)"
        unfolding step [symmetric] by blast
      have "x # l = (x # ys) @ h # zs"
        using b(1) by simp
      moreover have "the (key x) < the (key h)"
        using xd b(2) by (rule le_less_trans)
      then have "\<forall>s\<in>set (x # ys). the (key s) < the (key h)"
        using b(3) by simp
      ultimately have "x # l = (x # ys) @ h # zs \<and> the (key d) < the (key h) \<and>
            (\<forall>s\<in>set (x # ys). the (key s) < the (key h)) \<and> (\<forall>s\<in>set zs. the (key s) \<le> the (key h))"
        using b(2,4) by simp
      then show ?thesis by (intro disjI2 exI)
    qed
  qed
  then show ?case unfolding h_def .
qed

lemma highest_loop_split:
  "\<exists>ys zs. first # rest = ys @ highest_loop first (first # rest) # zs \<and>
     (\<forall>s\<in>set ys. the (key s) < the (key (highest_loop first (first # rest)))) \<and>
     (\<forall>s\<in>set zs. the (key s) \<le> the (key (highest_loop first (first # rest))))"
proof -
  define h where "h = highest_loop first (first # rest)"
  have step: "h = highest_loop first rest"
    unfolding h_def by (simp add: highest_loop_step)
  have "\<exists>ys zs. first # rest = ys @ h # zs \<and> (\<forall>s\<in>set ys. the (key s) < the (key h)) \<and>
          (\<forall>s\<in>set zs. the (key s) \<le> the (key h))"
    using highest_loop_first_greatest [of first rest]
  proof
    assume a: "highest_loop first rest = first \<and> (\<forall>s\<in>set rest. the (key s) \<le> the (key first))"
    then have hf: "h = first" using step by simp
    have "first # rest = [] @ h # rest \<and> (\<forall>s\<in>set []. the (key s) < the (key h)) \<and>
          (\<forall>s\<in>set rest. the (key s) \<le> the (key h))"
      using a hf by simp
    then show ?thesis by (intro exI)
  next
    assume "\<exists>ys zs. rest = ys @ highest_loop first rest # zs \<and>
      the (key first) < the (key (highest_loop first rest)) \<and>
      (\<forall>s\<in>set ys. the (key s) < the (key (highest_loop first rest))) \<and>
      (\<forall>s\<in>set zs. the (key s) \<le> the (key (highest_loop first rest)))"
    then obtain ys zs where b: "rest = ys @ h # zs" "the (key first) < the (key h)"
      "\<forall>s\<in>set ys. the (key s) < the (key h)" "\<forall>s\<in>set zs. the (key s) \<le> the (key h)"
      unfolding step [symmetric] by blast
    have "first # rest = (first # ys) @ h # zs \<and>
          (\<forall>s\<in>set (first # ys). the (key s) < the (key h)) \<and>
          (\<forall>s\<in>set zs. the (key s) \<le> the (key h))"
      using b by simp
    then show ?thesis by (intro exI)
  qed
  then show ?thesis unfolding h_def .
qed

lemma highest_loop_greatest:
  "highest_loop first (first # rest) \<in> set (first # rest) \<and>
   (\<forall>s\<in>set (first # rest). the (key s) \<le> the (key (highest_loop first (first # rest))))"
proof -
  define h where "h = highest_loop first (first # rest)"
  obtain ys zs where b: "first # rest = ys @ h # zs"
    "\<forall>s\<in>set ys. the (key s) < the (key h)"
    "\<forall>s\<in>set zs. the (key s) \<le> the (key h)"
    using highest_loop_split [of first rest] unfolding h_def by blast
  have "h \<in> set (ys @ h # zs)" by simp
  then have m: "h \<in> set (first # rest)"
    using b(1) by metis
  have "\<forall>s\<in>set (ys @ h # zs). the (key s) \<le> the (key h)"
    using b(2,3) by auto
  then have "\<forall>s\<in>set (first # rest). the (key s) \<le> the (key h)"
    using b(1) by metis
  with m show ?thesis unfolding h_def by blast
qed

lemma strcmp_le_0_iff: "strcmp a b \<le> 0 \<longleftrightarrow> a \<le> b"
  using strcmp_greater_0_iff [of a b] by auto

lemma select_default_automatic:
  "fst (select_default None report st) =
     (case sdk_root_list st of [] \<Rightarrow> None | first # rest \<Rightarrow> Some (highest_loop first (first # rest)))"
  by (simp add: select_default_def Let_def split: list.splits)

lemma select_default_not_found:
  assumes "find_root (sdk_root_list st) (Some (canonical_key nm)) = None"
  shows "fst (select_default (Some nm) report st) = fst (select_default None report st)"
    and "warnings (snd (select_default (Some nm) report st)) =
           warnings st @ [''SDK '' @ [CHR 0x27] @ nm @ [CHR 0x27] @
                          '' not found -- using highest found instead'']"
  using assms
  by (simp_all add: select_default_def Let_def warning_fields printf_fields split: list.splits)

lemma select_default_found:
  "find_root (sdk_root_list st) (Some (canonical_key nm)) = Some r \<Longrightarrow>
   select_default (Some nm) report st = (Some r, st)"
  by (simp add: select_default_def Let_def)

lemma select_default_empty:
  "sdk_root_list st = [] \<Longrightarrow> fst (select_default default_sdk_name report st) = None"
  by (cases default_sdk_name) (simp_all add: select_default_def Let_def warning_fields)

section \<open>Evaluation of the example installations\<close>

lemmas eval_defs = scan_all_def analyze_palmdev_tree_def scan_entry_def make_root_def
  canonical_key_def skip_prefixes_def tolower_def installation_def init_state_def
  printf_def warning_def pad13_def Let_def

lemma headerless_first_sdks:
  "sdk_root_list (scan_all fs_headerless_first ''/a'' True [''/b'']) =
     [\<lparr> prefix = ''/b/sdk-5'', sub_include = Some ''include'', sub_lib = None, key = Some ''5'' \<rparr>]"
  by (simp add: eval_defs fs_headerless_first_def)

lemma headerless_first_out:
  "out (scan_all fs_headerless_first ''/a'' True [''/b'']) =
     ''Checking SDKs in /a\<newline>  sdk-5        '' @ [CHR 0x09] @ ''INVALID -- no headers\<newline>\<newline>'' @
     ''Checking SDKs in /b\<newline>  sdk-5        '' @ [CHR 0x09] @ ''headers in '' @ [CHR 0x27] @
     ''include'' @ [CHR 0x27] @ '', no libraries\<newline>\<newline>''"
  by (simp add: eval_defs fs_headerless_first_def eval_nat_numeral)

lemma two_sdk5_first_dir:
  "scan_all fs_two_sdk5 ''/a'' False [] =
     \<lparr> generic_root_list = [],
       sdk_root_list =
         [\<lparr> prefix = ''/a/sdk-5'', sub_include = Some ''include'', sub_lib = None, key = Some ''5'' \<rparr>],
       out = [], warnings = [] \<rparr>"
  by (simp add: eval_defs fs_two_sdk5_def)

lemma two_sdk5_all_dirs:
  "scan_all fs_two_sdk5 ''/a'' False [''/b'', ''/b/sdk-5.0''] =
     \<lparr> generic_root_list =
         [\<lparr> prefix = ''/b/sdk-5.0'', sub_include = Some ''include'', sub_lib = None, key = None \<rparr>],
       sdk_root_list =
         [\<lparr> prefix = ''/a/sdk-5'', sub_include = Some ''include'', sub_lib = None, key = Some ''5'' \<rparr>],
       out = [], warnings = [] \<rparr>"
  by (simp add: eval_defs fs_two_sdk5_def)

lemma two_sdk5_umbrella:
  "write_main_spec fs_two_sdk5 (scan_all fs_two_sdk5 ''/a'' False [''/b'', ''/b/sdk-5.0'']) []
     None (fst (select_default None False (scan_all fs_two_sdk5 ''/a'' False [''/b'', ''/b/sdk-5.0''])))
     include_kind =
   ''*cpp:\<newline>+ %{!palmos-none: -isystem /b/sdk-5.0/include %{palmos5:%(cpp_sdk_5)}'' @
   '' %{palmos5.0:%(cpp_sdk_5)} %{!palmos*: %(cpp_sdk_5)}}\<newline>\<newline>''"
  unfolding two_sdk5_all_dirs
  by (simp add: write_main_spec_text select_default_automatic write_dirtree_def sub_def
      sdk_guards_text guarded_ref_def default_ref_def all_digits_def spec_def option_def
      fs_two_sdk5_def installation_def below_def fprintf_def putc_def isspace_def)


section \<open>The claims about the canonical key\<close>

subsection \<open>C2: only one trailing \<open>.0\<close> is stripped\<close>

text \<open>
  C2, as stated, fails: the claim gives \<open>4.0.0\<close> as the canonical key of \<open>sdk-4.0.0\<close>,
  but that name ends with the literal \<open>.0\<close>, so the code strips it and returns \<open>4.0\<close>.
\<close>

theorem canonical_key_sdk_4_0_0_counterexample:
  "canonical_key ''sdk-4.0.0'' \<noteq> ''4.0.0''"
  by (simp add: canonical_key_def skip_prefixes_def tolower_def)

text \<open>
  C2, amended: after the prefixes are skipped, the canonical key is the rest of the name
  with exactly one trailing \<open>.0\<close> removed when the rest ends with \<open>.0\<close> (whatever stands
  before it, also another \<open>.0\<close>: nothing is stripped recursively), and the rest unchanged
  when it does not end with \<open>.0\<close> (an interior \<open>.0\<close> stays). In particular the canonical
  key of \<open>sdk-4.0.0\<close> is \<open>4.0\<close>.
\<close>

theorem canonical_key_strips_one_suffix:
  "(skip_prefixes name = t @ ''.0'' \<longrightarrow> canonical_key name = t) \<and>
   ((\<forall>u. skip_prefixes name \<noteq> u @ ''.0'') \<longrightarrow> canonical_key name = skip_prefixes name) \<and>
   canonical_key (''sdk-'' @ t @ ''.0'') = t \<and>
   canonical_key ''sdk-4.0.0'' = ''4.0''"
proof -
  have a: "canonical_key name = t" if "skip_prefixes name = t @ ''.0''" for name t
    using that by (simp add: canonical_key_eq)
  have b: "canonical_key name = skip_prefixes name" if "\<forall>u. skip_prefixes name \<noteq> u @ ''.0''"
    using that by (simp add: canonical_key_eq)
  have c: "canonical_key (''sdk-'' @ u @ ''.0'') = u" for u
    by (rule a) (rule skip_prefixes_sdk)
  have d: "canonical_key ''sdk-4.0.0'' = ''4.0''"
    using c [of "''4.0''"] by simp
  from a b c d show ?thesis by blast
qed

theorem canonical_key_strips_one_suffix_witness:
  "skip_prefixes ''sdk-4.0.0'' = ''4.0'' @ ''.0'' \<and> canonical_key ''sdk-4.0.0'' = ''4.0'' \<and>
   canonical_key ''sdk-3.5'' = ''3.5''"
proof -
  have h1: "skip_prefixes ''sdk-4.0.0'' = ''4.0'' @ ''.0''"
    by (simp add: skip_prefixes_def tolower_def)
  have h2: "skip_prefixes ''sdk-3.5'' = ''3.5''"
    by (simp add: skip_prefixes_def tolower_def)
  have h3: "\<forall>u. skip_prefixes ''sdk-3.5'' \<noteq> u @ ''.0''"
    unfolding h2 using not_dot0_35 by blast
  show ?thesis
    using canonical_key_strips_one_suffix [of "''sdk-4.0.0''" "''4.0''"]
      canonical_key_strips_one_suffix [of "''sdk-3.5''" "[]"] h1 h2 h3
    by simp
qed

subsection \<open>C3: when canonicalizing twice changes nothing\<close>

text \<open>
  C3, as stated, fails: the canonical key of \<open>sdk-4.0.0\<close> is \<open>4.0\<close>, and canonicalizing
  that again gives \<open>4\<close>.
\<close>

theorem canonical_key_not_idempotent_counterexample:
  "canonical_key (canonical_key ''sdk-4.0.0'') \<noteq> canonical_key ''sdk-4.0.0''"
  by (simp add: canonical_key_def skip_prefixes_def tolower_def)

text \<open>
  C3, amended: canonicalizing the canonical key of \<open>d\<close> again gives the same key exactly
  when that key neither starts, in any letter case, with \<open>palmos\<close> or \<open>sdk-\<close> nor ends
  with \<open>.0\<close>.
\<close>

theorem canonical_key_idempotent_iff:
  "canonical_key (canonical_key d) = canonical_key d \<longleftrightarrow>
     \<not> matches ''palmos'' (canonical_key d) \<and> \<not> matches ''sdk-'' (canonical_key d) \<and>
     (\<forall>t. canonical_key d \<noteq> t @ ''.0'')"
  by (rule canonical_key_fixed)

theorem canonical_key_idempotent_iff_witness:
  "canonical_key (canonical_key ''PalmOSSDK-3.5'') = canonical_key ''PalmOSSDK-3.5'' \<and>
   canonical_key ''PalmOSSDK-3.5'' = ''3.5''"
proof -
  have k: "canonical_key ''PalmOSSDK-3.5'' = ''3.5''"
    by (simp add: canonical_key_def skip_prefixes_def tolower_def)
  have "\<not> matches ''palmos'' ''3.5'' \<and> \<not> matches ''sdk-'' ''3.5'' \<and> (\<forall>t. ''3.5'' \<noteq> t @ ''.0'')"
    using not_dot0_35 by (simp add: tolower_def)
  then show ?thesis
    using canonical_key_idempotent_iff [of "''PalmOSSDK-3.5''"] k by simp
qed

section \<open>The claims about the scan\<close>

subsection \<open>C8: a directory that cannot be opened\<close>

text \<open>
  C8: when \<open>opendir\<close> fails on the base directory, \<open>analyze_palmdev_tree\<close> returns the
  state it was given: the generic list and the SDK list are unchanged, nothing is
  printed and no warning or error is raised.
\<close>

theorem analyze_unopenable_is_noop:
  "opendir fs pfx = None \<Longrightarrow> analyze_palmdev_tree fs pfx report st = st"
  by (simp add: analyze_palmdev_tree_def)

theorem analyze_unopenable_is_noop_witness:
  "opendir fs_palmdev ''/usr/local/palmdev'' = None \<and>
   analyze_palmdev_tree fs_palmdev ''/usr/local/palmdev'' True init_state = init_state"
proof -
  have h: "opendir fs_palmdev ''/usr/local/palmdev'' = None"
    by (simp add: fs_palmdev_def installation_def)
  show ?thesis
    using h analyze_unopenable_is_noop [OF h, of True init_state] by simp
qed

subsection \<open>C5: an SDK directory without headers is never stored\<close>

text \<open>
  C5: for an entry \<open>d\<close> of the scanned directory \<open>pfx\<close> that has neither an \<open>include\<close> nor
  an \<open>Incs\<close> subdirectory (whatever else it has), the turn of the loop leaves the SDK
  list and the generic list as they were, so the text generated from them is the same
  as without the entry; when the entry is an \<open>sdk-\<close> directory that no stored root
  overrides (so a root is constructed for it) and reporting is on, the turn prints the
  line "INVALID -- no headers" for it; and at the end of the whole scan no root of
  the SDK list has the path of that entry. Every root of the SDK list has headers.
\<close>

theorem sdk_without_headers_is_discarded:
  assumes "\<not> is_dir fs (pfx @ ''/'' @ d @ ''/include'')"
    and "\<not> is_dir fs (pfx @ ''/'' @ d @ ''/Incs'')"
  shows
    "sdk_root_list (fst (scan_entry fs pfx report (st, n) d)) = sdk_root_list st \<and>
     generic_root_list (fst (scan_entry fs pfx report (st, n) d)) = generic_root_list st \<and>
     write_specs fs (fst (scan_entry fs pfx report (st, n) d)) f target default_sdk =
       write_specs fs st f target default_sdk \<and>
     (matches ''sdk-'' d \<and> is_dir_dirent fs d (pfx @ ''/'' @ d) \<and>
      find_root (sdk_root_list st) (Some (canonical_key d)) = None \<and> report \<longrightarrow>
        out (fst (scan_entry fs pfx report (st, n) d)) =
          out st @ ''  '' @ pad13 d @ [CHR 0x09] @ ''INVALID -- no headers\<newline>'') \<and>
     pfx @ ''/'' @ d \<notin> set (map prefix (sdk_root_list (scan_all fs PALMDEV_PREFIX report' args))) \<and>
     (\<forall>r\<in>set (sdk_root_list (scan_all fs PALMDEV_PREFIX report' args)).
        sub_include r \<noteq> None \<and> has_headers fs (prefix r))"
proof -
  have nh: "\<not> has_headers fs (pfx @ ''/'' @ d)"
    using assms by (simp add: has_headers_def)
  then have nk: "\<not> keeps fs pfx (sdk_root_list st) d"
    by (simp add: keeps_def)
  have a: "sdk_root_list (fst (scan_entry fs pfx report (st, n) d)) = sdk_root_list st"
    using nk by (simp add: scan_entry_lists(1))
  have b: "generic_root_list (fst (scan_entry fs pfx report (st, n) d)) = generic_root_list st"
    by (rule scan_entry_lists(2))
  have c: "write_specs fs (fst (scan_entry fs pfx report (st, n) d)) f target default_sdk =
             write_specs fs st f target default_sdk"
    using b a by (rule write_specs_cong)
  have d: "out (fst (scan_entry fs pfx report (st, n) d)) =
             out st @ ''  '' @ pad13 d @ [CHR 0x09] @ ''INVALID -- no headers\<newline>''"
    if "matches ''sdk-'' d" "is_dir_dirent fs d (pfx @ ''/'' @ d)"
      "find_root (sdk_root_list st) (Some (canonical_key d)) = None" "report"
    using that nh scan_entry_invalid [of d fs pfx st report n] by (simp add: printf_fields)
  have e: "pfx @ ''/'' @ d \<notin> set (map prefix (sdk_root_list (scan_all fs PALMDEV_PREFIX report' args)))"
  proof
    assume "pfx @ ''/'' @ d \<in> set (map prefix (sdk_root_list (scan_all fs PALMDEV_PREFIX report' args)))"
    then obtain r where "r \<in> set (sdk_root_list (scan_all fs PALMDEV_PREFIX report' args))"
      "prefix r = pfx @ ''/'' @ d" by auto
    then have "has_headers fs (pfx @ ''/'' @ d)"
      using scan_all_headers [of r fs PALMDEV_PREFIX report' args] by simp
    with nh show False by simp
  qed
  have g: "\<forall>r\<in>set (sdk_root_list (scan_all fs PALMDEV_PREFIX report' args)).
             sub_include r \<noteq> None \<and> has_headers fs (prefix r)"
  proof
    fix r assume r: "r \<in> set (sdk_root_list (scan_all fs PALMDEV_PREFIX report' args))"
    then have "r \<in> set (discover_dirs fs [] (PALMDEV_PREFIX # filter (is_dir fs) args))"
      by (simp add: scan_all_sdks discovered_def)
    then have "sub_include r \<noteq> None"
      using discover_dirs_sub_include [of "[]" fs "PALMDEV_PREFIX # filter (is_dir fs) args"]
      by simp
    then show "sub_include r \<noteq> None \<and> has_headers fs (prefix r)"
      using r scan_all_headers [of r fs PALMDEV_PREFIX report' args] by simp
  qed
  from a b c d e g show ?thesis by blast
qed

theorem sdk_without_headers_is_discarded_witness:
  "is_dir fs_palmdev ''/opt/palmdev/sdk-2/lib'' \<and>
   sdk_root_list (fst (scan_entry fs_palmdev ''/opt/palmdev'' True (init_state, 0) ''sdk-2'')) = [] \<and>
   out (fst (scan_entry fs_palmdev ''/opt/palmdev'' True (init_state, 0) ''sdk-2'')) =
     ''  sdk-2        '' @ [CHR 0x09] @ ''INVALID -- no headers\<newline>'' \<and>
   ''/opt/palmdev/sdk-2'' \<notin>
     set (map prefix (sdk_root_list (scan_all fs_palmdev ''/opt/palmdev'' True [])))"
proof -
  have h1: "\<not> is_dir fs_palmdev (''/opt/palmdev'' @ ''/'' @ ''sdk-2'' @ ''/include'')"
    and h2: "\<not> is_dir fs_palmdev (''/opt/palmdev'' @ ''/'' @ ''sdk-2'' @ ''/Incs'')"
    and h3: "is_dir fs_palmdev ''/opt/palmdev/sdk-2/lib''"
    and h4: "is_dir_dirent fs_palmdev ''sdk-2'' (''/opt/palmdev'' @ ''/'' @ ''sdk-2'')"
    by (simp_all add: fs_palmdev_def installation_def)
  have h5: "matches ''sdk-'' ''sdk-2''"
    by (simp add: tolower_def)
  have h6: "find_root (sdk_root_list init_state) (Some (canonical_key ''sdk-2'')) = None"
    by (simp add: init_state_def)
  show ?thesis
    using sdk_without_headers_is_discarded [OF h1 h2, of True init_state 0 "[]" None None
        "''/opt/palmdev''" True "[]"] h3 h4 h5 h6
    by (simp add: init_state_def pad13_def eval_nat_numeral)
qed

subsection \<open>C1: which root is stored for a key\<close>

text \<open>
  C1, as stated, fails. In the first installation \<open>/a/sdk-5\<close> has no headers: the scan
  of \<open>/a\<close> reports it invalid and stores nothing, so the later same-key entry
  \<open>/b/sdk-5\<close> is not overridden but stored. In the second one \<open>/b/sdk-5.0\<close> is
  overridden by \<open>/a/sdk-5\<close>, but \<open>/b/sdk-5.0\<close> is also scanned as a base directory and
  is a generic root there, so its path stands in an \<open>-isystem\<close> option.
\<close>

theorem later_same_key_sdk_counterexample:
  "map prefix (sdk_root_list (scan_all fs_headerless_first ''/a'' True [''/b''])) = [''/b/sdk-5''] \<and>
   out (scan_all fs_headerless_first ''/a'' True [''/b'']) =
     ''Checking SDKs in /a\<newline>  sdk-5        '' @ [CHR 0x09] @ ''INVALID -- no headers\<newline>\<newline>'' @
     ''Checking SDKs in /b\<newline>  sdk-5        '' @ [CHR 0x09] @ ''headers in '' @ [CHR 0x27] @
     ''include'' @ [CHR 0x27] @ '', no libraries\<newline>\<newline>'' \<and>
   map prefix (sdk_root_list (scan_all fs_two_sdk5 ''/a'' False [''/b'', ''/b/sdk-5.0''])) =
     [''/a/sdk-5''] \<and>
   write_main_spec fs_two_sdk5 (scan_all fs_two_sdk5 ''/a'' False [''/b'', ''/b/sdk-5.0'']) []
     None (fst (select_default None False (scan_all fs_two_sdk5 ''/a'' False [''/b'', ''/b/sdk-5.0''])))
     include_kind =
   ''*cpp:\<newline>+ %{!palmos-none: -isystem /b/sdk-5.0/include %{palmos5:%(cpp_sdk_5)}'' @
   '' %{palmos5.0:%(cpp_sdk_5)} %{!palmos*: %(cpp_sdk_5)}}\<newline>\<newline>''"
  using headerless_first_sdks headerless_first_out two_sdk5_all_dirs two_sdk5_umbrella
  by simp

text \<open>
  C1, amended: the root stored for a key is the first-scanned directory of that key
  that has a headers subdirectory. A same-key directory without headers is reported
  as "INVALID -- no headers" when reporting is on, is not stored and hides nothing:
  its key still has no root, and a directory all of whose entries of the key are
  without headers leaves the key without a root. The first entry with headers of a
  key that has no root yet becomes the root found for the key, in the scan of its
  directory and at the end of the whole scan, whether it stands in the first scanned
  directory or in the second after a first one without headers for the key. The root
  found for a key stays the root found for it through every later scan (it is never
  replaced); an \<open>sdk-\<close> directory whose key already has a root is counted, reported as
  "UNUSED -- hidden by" the path of that root when reporting is on, and changes neither
  list, so the generated text is the same as without it. At the end of the scan no two
  roots of the SDK list have the same key, and every root of the list has headers.
\<close>

theorem first_sdk_with_headers_wins:
  "(find_root (sdk_root_list st) (Some k) = Some r \<longrightarrow>
      find_root (sdk_root_list (analyze_palmdev_tree fs pfx report st)) (Some k) = Some r \<and>
      find_root (sdk_root_list (scan_args fs report st args)) (Some k) = Some r) \<and>
   (matches ''sdk-'' d \<and> is_dir_dirent fs d (pfx @ ''/'' @ d) \<and>
    find_root (sdk_root_list st) (Some (canonical_key d)) = Some r \<longrightarrow>
      scan_entry fs pfx report (st, n) d =
        (if report
         then printf (''  '' @ pad13 d @ [CHR 0x09] @ ''UNUSED -- hidden by '' @ prefix r @
                      ''\<newline>'') st
         else st, Suc n) \<and>
      sdk_root_list (fst (scan_entry fs pfx report (st, n) d)) = sdk_root_list st \<and>
      generic_root_list (fst (scan_entry fs pfx report (st, n) d)) = generic_root_list st \<and>
      write_specs fs (fst (scan_entry fs pfx report (st, n) d)) f target default_sdk =
        write_specs fs st f target default_sdk) \<and>
   (matches ''sdk-'' d \<and> is_dir_dirent fs d (pfx @ ''/'' @ d) \<and>
    find_root (sdk_root_list st) (Some (canonical_key d)) = None \<and>
    has_headers fs (pfx @ ''/'' @ d) \<longrightarrow>
      find_root (sdk_root_list (fst (scan_entry fs pfx report (st, n) d)))
        (Some (canonical_key d)) = Some (kept_root fs pfx d)) \<and>
   (matches ''sdk-'' d \<and> is_dir_dirent fs d (pfx @ ''/'' @ d) \<and>
    find_root (sdk_root_list st) (Some (canonical_key d)) = None \<and>
    \<not> has_headers fs (pfx @ ''/'' @ d) \<longrightarrow>
      scan_entry fs pfx report (st, n) d =
        (if report
         then printf (''  '' @ pad13 d @ [CHR 0x09] @ ''INVALID -- no headers\<newline>'') st
         else st, Suc n) \<and>
      sdk_root_list (fst (scan_entry fs pfx report (st, n) d)) = sdk_root_list st \<and>
      find_root (sdk_root_list (fst (scan_entry fs pfx report (st, n) d)))
        (Some (canonical_key d)) = None) \<and>
   (find_root (sdk_root_list st) (Some k) = None \<and>
    (case opendir fs pfx of None \<Rightarrow> True | Some es \<Rightarrow> headerless_for fs pfx k es) \<longrightarrow>
      find_root (sdk_root_list (analyze_palmdev_tree fs pfx report st)) (Some k) = None) \<and>
   (opendir fs pfx = Some (earlier @ d # later) \<and>
    find_root (sdk_root_list st) (Some (canonical_key d)) = None \<and>
    matches ''sdk-'' d \<and> is_dir_dirent fs d (pfx @ ''/'' @ d) \<and>
    has_headers fs (pfx @ ''/'' @ d) \<and> headerless_for fs pfx (canonical_key d) earlier \<longrightarrow>
      find_root (sdk_root_list (analyze_palmdev_tree fs pfx report st))
        (Some (canonical_key d)) = Some (kept_root fs pfx d)) \<and>
   (opendir fs PALMDEV_PREFIX = Some (earlier @ d # later) \<and>
    matches ''sdk-'' d \<and> is_dir_dirent fs d (PALMDEV_PREFIX @ ''/'' @ d) \<and>
    has_headers fs (PALMDEV_PREFIX @ ''/'' @ d) \<and>
    headerless_for fs PALMDEV_PREFIX (canonical_key d) earlier \<longrightarrow>
      find_root (sdk_root_list (scan_all fs PALMDEV_PREFIX report args))
        (Some (canonical_key d)) = Some (kept_root fs PALMDEV_PREFIX d)) \<and>
   ((case opendir fs PALMDEV_PREFIX of
       None \<Rightarrow> True
     | Some es \<Rightarrow> headerless_for fs PALMDEV_PREFIX (canonical_key d) es) \<and>
    is_dir fs pfx \<and> opendir fs pfx = Some (earlier @ d # later) \<and>
    matches ''sdk-'' d \<and> is_dir_dirent fs d (pfx @ ''/'' @ d) \<and>
    has_headers fs (pfx @ ''/'' @ d) \<and> headerless_for fs pfx (canonical_key d) earlier \<longrightarrow>
      find_root (sdk_root_list (scan_all fs PALMDEV_PREFIX report (pfx # args)))
        (Some (canonical_key d)) = Some (kept_root fs pfx d)) \<and>
   distinct (map key (sdk_root_list (scan_all fs PALMDEV_PREFIX report args))) \<and>
   (\<forall>s\<in>set (sdk_root_list (scan_all fs PALMDEV_PREFIX report args)).
      has_headers fs (prefix s) \<and> sub_include s \<noteq> None)"
proof -
  have a: "find_root (sdk_root_list (analyze_palmdev_tree fs pfx report st)) (Some k) = Some r \<and>
           find_root (sdk_root_list (scan_args fs report st args)) (Some k) = Some r"
    if "find_root (sdk_root_list st) (Some k) = Some r"
    using that analyze_find_stable [of st k r fs pfx report]
      scan_args_find_stable [of st k r fs report args]
    by simp
  have b: "scan_entry fs pfx report (st, n) d =
             (if report
              then printf (''  '' @ pad13 d @ [CHR 0x09] @ ''UNUSED -- hidden by '' @ prefix r @
                           ''\<newline>'') st
              else st, Suc n) \<and>
           sdk_root_list (fst (scan_entry fs pfx report (st, n) d)) = sdk_root_list st \<and>
           generic_root_list (fst (scan_entry fs pfx report (st, n) d)) = generic_root_list st \<and>
           write_specs fs (fst (scan_entry fs pfx report (st, n) d)) f target default_sdk =
             write_specs fs st f target default_sdk"
    if h: "matches ''sdk-'' d" "is_dir_dirent fs d (pfx @ ''/'' @ d)"
      "find_root (sdk_root_list st) (Some (canonical_key d)) = Some r"
  proof -
    have e: "scan_entry fs pfx report (st, n) d =
               (if report
                then printf (''  '' @ pad13 d @ [CHR 0x09] @ ''UNUSED -- hidden by '' @ prefix r @
                             ''\<newline>'') st
                else st, Suc n)"
      using h by (rule scan_entry_overridden)
    have "\<not> keeps fs pfx (sdk_root_list st) d"
      using h(3) by (simp add: keeps_def)
    then have s: "sdk_root_list (fst (scan_entry fs pfx report (st, n) d)) = sdk_root_list st"
      by (simp add: scan_entry_lists(1))
    have g: "generic_root_list (fst (scan_entry fs pfx report (st, n) d)) = generic_root_list st"
      by (rule scan_entry_lists(2))
    have "write_specs fs (fst (scan_entry fs pfx report (st, n) d)) f target default_sdk =
            write_specs fs st f target default_sdk"
      using g s by (rule write_specs_cong)
    with e s g show ?thesis by blast
  qed
  have c: "find_root (sdk_root_list (fst (scan_entry fs pfx report (st, n) d)))
             (Some (canonical_key d)) = Some (kept_root fs pfx d)"
    if h: "matches ''sdk-'' d" "is_dir_dirent fs d (pfx @ ''/'' @ d)"
      "find_root (sdk_root_list st) (Some (canonical_key d)) = None"
      "has_headers fs (pfx @ ''/'' @ d)"
  proof -
    have "keeps fs pfx (sdk_root_list st) d"
      using h by (simp add: keeps_def)
    then have "sdk_root_list (fst (scan_entry fs pfx report (st, n) d)) =
                 kept_root fs pfx d # sdk_root_list st"
      by (simp add: scan_entry_lists(1))
    then show ?thesis
      using find_root_Cons_same [of "kept_root fs pfx d" "canonical_key d" "sdk_root_list st"]
      by (simp add: kept_root_fields)
  qed
  have i: "scan_entry fs pfx report (st, n) d =
             (if report
              then printf (''  '' @ pad13 d @ [CHR 0x09] @ ''INVALID -- no headers\<newline>'') st
              else st, Suc n) \<and>
           sdk_root_list (fst (scan_entry fs pfx report (st, n) d)) = sdk_root_list st \<and>
           find_root (sdk_root_list (fst (scan_entry fs pfx report (st, n) d)))
             (Some (canonical_key d)) = None"
    if h: "matches ''sdk-'' d" "is_dir_dirent fs d (pfx @ ''/'' @ d)"
      "find_root (sdk_root_list st) (Some (canonical_key d)) = None"
      "\<not> has_headers fs (pfx @ ''/'' @ d)"
  proof -
    have e: "scan_entry fs pfx report (st, n) d =
               (if report
                then printf (''  '' @ pad13 d @ [CHR 0x09] @ ''INVALID -- no headers\<newline>'') st
                else st, Suc n)"
      using h by (rule scan_entry_invalid)
    have "\<not> keeps fs pfx (sdk_root_list st) d"
      using h(4) by (simp add: keeps_def)
    then have s: "sdk_root_list (fst (scan_entry fs pfx report (st, n) d)) = sdk_root_list st"
      by (simp add: scan_entry_lists(1))
    have "find_root (sdk_root_list (fst (scan_entry fs pfx report (st, n) d)))
            (Some (canonical_key d)) = None"
      using h(3) by (simp only: s)
    with e s show ?thesis by blast
  qed
  have j: "find_root (sdk_root_list (analyze_palmdev_tree fs pfx report st)) (Some k) = None"
    if "find_root (sdk_root_list st) (Some k) = None"
      "case opendir fs pfx of None \<Rightarrow> True | Some es \<Rightarrow> headerless_for fs pfx k es"
    using that by (rule analyze_find_None)
  have l: "find_root (sdk_root_list (analyze_palmdev_tree fs pfx report st))
             (Some (canonical_key d)) = Some (kept_root fs pfx d)"
    if "opendir fs pfx = Some (earlier @ d # later)"
      "find_root (sdk_root_list st) (Some (canonical_key d)) = None"
      "matches ''sdk-'' d" "is_dir_dirent fs d (pfx @ ''/'' @ d)"
      "has_headers fs (pfx @ ''/'' @ d)" "headerless_for fs pfx (canonical_key d) earlier"
    using that by (rule analyze_first_with_headers)
  have m: "find_root (sdk_root_list (scan_all fs PALMDEV_PREFIX report args))
             (Some (canonical_key d)) = Some (kept_root fs PALMDEV_PREFIX d)"
    if "opendir fs PALMDEV_PREFIX = Some (earlier @ d # later)"
      "matches ''sdk-'' d" "is_dir_dirent fs d (PALMDEV_PREFIX @ ''/'' @ d)"
      "has_headers fs (PALMDEV_PREFIX @ ''/'' @ d)"
      "headerless_for fs PALMDEV_PREFIX (canonical_key d) earlier"
    using that by (rule scan_all_first_dir_with_headers)
  have o: "find_root (sdk_root_list (scan_all fs PALMDEV_PREFIX report (pfx # args)))
             (Some (canonical_key d)) = Some (kept_root fs pfx d)"
    if "case opendir fs PALMDEV_PREFIX of
          None \<Rightarrow> True
        | Some es \<Rightarrow> headerless_for fs PALMDEV_PREFIX (canonical_key d) es"
      "is_dir fs pfx" "opendir fs pfx = Some (earlier @ d # later)"
      "matches ''sdk-'' d" "is_dir_dirent fs d (pfx @ ''/'' @ d)"
      "has_headers fs (pfx @ ''/'' @ d)" "headerless_for fs pfx (canonical_key d) earlier"
    using that by (rule scan_all_second_dir_with_headers)
  have p: "distinct (map key (sdk_root_list (scan_all fs PALMDEV_PREFIX report args)))"
    by (rule scan_all_distinct_keys)
  have q: "\<forall>s\<in>set (sdk_root_list (scan_all fs PALMDEV_PREFIX report args)).
             has_headers fs (prefix s) \<and> sub_include s \<noteq> None"
  proof
    fix s assume s: "s \<in> set (sdk_root_list (scan_all fs PALMDEV_PREFIX report args))"
    then have "s \<in> set (discover_dirs fs [] (PALMDEV_PREFIX # filter (is_dir fs) args))"
      by (simp add: scan_all_sdks discovered_def)
    then have "sub_include s \<noteq> None"
      using discover_dirs_sub_include [of "[]" fs "PALMDEV_PREFIX # filter (is_dir fs) args"]
      by simp
    then show "has_headers fs (prefix s) \<and> sub_include s \<noteq> None"
      using s scan_all_headers [of s fs PALMDEV_PREFIX report args] by simp
  qed
  show ?thesis
    apply (intro conjI impI)
    subgoal using a by blast
    subgoal using a by blast
    subgoal using b by blast
    subgoal using b by blast
    subgoal using b by blast
    subgoal using b by blast
    subgoal using c by blast
    subgoal using i by blast
    subgoal using i by blast
    subgoal using i by blast
    subgoal using j by blast
    subgoal using l by blast
    subgoal using m by blast
    subgoal using o by blast
    subgoal by (rule p)
    subgoal by (rule q)
    done
qed

theorem first_sdk_with_headers_wins_witness:
  "find_root (sdk_root_list (scan_all fs_two_sdk5 ''/a'' False [''/b'', ''/b/sdk-5.0'']))
     (Some ''5'') =
     Some \<lparr> prefix = ''/a/sdk-5'', sub_include = Some ''include'', sub_lib = None, key = Some ''5'' \<rparr> \<and>
   scan_entry fs_two_sdk5 ''/b'' True (scan_all fs_two_sdk5 ''/a'' False [], 0) ''sdk-5.0'' =
     (printf (''  sdk-5.0      '' @ [CHR 0x09] @ ''UNUSED -- hidden by /a/sdk-5\<newline>'')
        (scan_all fs_two_sdk5 ''/a'' False []), 1) \<and>
   find_root (sdk_root_list (fst (scan_entry fs_two_sdk5 ''/a'' True (init_state, 0) ''sdk-5'')))
     (Some ''5'') = Some (kept_root fs_two_sdk5 ''/a'' ''sdk-5'') \<and>
   scan_entry fs_headerless_first ''/a'' True (init_state, 0) ''sdk-5'' =
     (printf (''  sdk-5        '' @ [CHR 0x09] @ ''INVALID -- no headers\<newline>'') init_state, 1) \<and>
   find_root (sdk_root_list (fst (scan_entry fs_headerless_first ''/a'' True (init_state, 0) ''sdk-5'')))
     (Some ''5'') = None \<and>
   find_root (sdk_root_list (scan_all fs_headerless_first ''/a'' True [''/b''])) (Some ''5'') =
     Some \<lparr> prefix = ''/b/sdk-5'', sub_include = Some ''include'', sub_lib = None, key = Some ''5'' \<rparr> \<and>
   find_root (sdk_root_list (scan_all fs_same_dir ''/c'' True [])) (Some ''5'') =
     Some \<lparr> prefix = ''/c/sdk-5'', sub_include = Some ''include'', sub_lib = None, key = Some ''5'' \<rparr>"
proof -
  let ?r = "\<lparr> prefix = ''/a/sdk-5'', sub_include = Some ''include'', sub_lib = None, key = Some ''5'' \<rparr>"
  let ?st = "scan_all fs_two_sdk5 ''/a'' False []"
  have k5: "canonical_key ''sdk-5.0'' = ''5''" "canonical_key ''sdk-5'' = ''5''"
    by (simp_all add: canonical_key_def skip_prefixes_def tolower_def)
  have m5: "matches ''sdk-'' ''sdk-5.0''" "matches ''sdk-'' ''sdk-5''"
    by (simp_all add: tolower_def)
  have none0: "find_root (sdk_root_list init_state) (Some (canonical_key ''sdk-5'')) = None"
    by (simp add: init_state_def)
  \<comment> \<open>the installation with \<open>/a/sdk-5\<close> and \<open>/b/sdk-5.0\<close>, both with headers\<close>
  have t1: "find_root (sdk_root_list ?st) (Some ''5'') = Some ?r"
    unfolding two_sdk5_first_dir by simp
  have t2: "is_dir_dirent fs_two_sdk5 ''sdk-5.0'' (''/b'' @ ''/'' @ ''sdk-5.0'')"
    "is_dir_dirent fs_two_sdk5 ''sdk-5'' (''/a'' @ ''/'' @ ''sdk-5'')"
    "has_headers fs_two_sdk5 (''/a'' @ ''/'' @ ''sdk-5'')"
    by (simp_all add: fs_two_sdk5_def installation_def has_headers_def)
  have t3: "find_root (sdk_root_list ?st) (Some (canonical_key ''sdk-5.0'')) = Some ?r"
    using t1 k5(1) by simp
  have a: "find_root (sdk_root_list (scan_args fs_two_sdk5 False ?st [''/b'', ''/b/sdk-5.0'']))
             (Some ''5'') = Some ?r"
    using first_sdk_with_headers_wins [where st = ?st and k = "''5''" and r = ?r
        and fs = fs_two_sdk5 and report = False and args = "[''/b'', ''/b/sdk-5.0'']"] t1
    by blast
  have b: "scan_entry fs_two_sdk5 ''/b'' True (?st, 0) ''sdk-5.0'' =
             (if True
              then printf (''  '' @ pad13 ''sdk-5.0'' @ [CHR 0x09] @ ''UNUSED -- hidden by '' @
                           prefix ?r @ ''\<newline>'') ?st
              else ?st, Suc 0)"
    using first_sdk_with_headers_wins [where st = ?st and r = ?r and fs = fs_two_sdk5
        and pfx = "''/b''" and report = True and d = "''sdk-5.0''" and n = 0] m5(1) t2(1) t3
    by blast
  have c: "find_root (sdk_root_list (fst (scan_entry fs_two_sdk5 ''/a'' True (init_state, 0) ''sdk-5'')))
             (Some (canonical_key ''sdk-5'')) = Some (kept_root fs_two_sdk5 ''/a'' ''sdk-5'')"
    using first_sdk_with_headers_wins [where st = init_state and fs = fs_two_sdk5
        and pfx = "''/a''" and report = True and d = "''sdk-5''" and n = 0] m5(2) t2(2,3) none0
    by blast
  \<comment> \<open>the installation whose first directory has \<open>sdk-5\<close> without headers\<close>
  have u1: "is_dir_dirent fs_headerless_first ''sdk-5'' (''/a'' @ ''/'' @ ''sdk-5'')"
    "\<not> has_headers fs_headerless_first (''/a'' @ ''/'' @ ''sdk-5'')"
    "is_dir fs_headerless_first ''/b''"
    "opendir fs_headerless_first ''/b'' = Some ([''.'', ''..''] @ ''sdk-5'' # [])"
    "is_dir_dirent fs_headerless_first ''sdk-5'' (''/b'' @ ''/'' @ ''sdk-5'')"
    "has_headers fs_headerless_first (''/b'' @ ''/'' @ ''sdk-5'')"
    by (simp_all add: fs_headerless_first_def installation_def has_headers_def)
  have u2: "case opendir fs_headerless_first ''/a'' of
              None \<Rightarrow> True
            | Some es \<Rightarrow> headerless_for fs_headerless_first ''/a'' (canonical_key ''sdk-5'') es"
    by (simp add: fs_headerless_first_def installation_def headerless_for_def has_headers_def
        tolower_def)
  have u3: "headerless_for fs_headerless_first ''/b'' (canonical_key ''sdk-5'') [''.'', ''..'']"
    by (simp add: headerless_for_def tolower_def)
  have i: "scan_entry fs_headerless_first ''/a'' True (init_state, 0) ''sdk-5'' =
             (if True
              then printf (''  '' @ pad13 ''sdk-5'' @ [CHR 0x09] @ ''INVALID -- no headers\<newline>'')
                     init_state
              else init_state, Suc 0)"
    and i': "find_root (sdk_root_list (fst (scan_entry fs_headerless_first ''/a'' True
               (init_state, 0) ''sdk-5''))) (Some (canonical_key ''sdk-5'')) = None"
    using first_sdk_with_headers_wins [where st = init_state and fs = fs_headerless_first
        and pfx = "''/a''" and report = True and d = "''sdk-5''" and n = 0] m5(2) u1(1,2) none0
    by blast+
  have o: "find_root (sdk_root_list (scan_all fs_headerless_first ''/a'' True (''/b'' # [])))
             (Some (canonical_key ''sdk-5'')) = Some (kept_root fs_headerless_first ''/b'' ''sdk-5'')"
    using first_sdk_with_headers_wins [where fs = fs_headerless_first and pfx = "''/b''"
        and PALMDEV_PREFIX = "''/a''" and report = True and d = "''sdk-5''"
        and earlier = "[''.'', ''..'']" and later = "[]" and args = "[]"] m5(2) u1(3-6) u2 u3
    by blast
  \<comment> \<open>the directory that lists \<open>sdk-5.0\<close> without headers before \<open>sdk-5\<close>\<close>
  have v1: "opendir fs_same_dir ''/c'' = Some ([''.'', ''..'', ''sdk-5.0''] @ ''sdk-5'' # [''SDK-5.0''])"
    "is_dir_dirent fs_same_dir ''sdk-5'' (''/c'' @ ''/'' @ ''sdk-5'')"
    "has_headers fs_same_dir (''/c'' @ ''/'' @ ''sdk-5'')"
    by (simp_all add: fs_same_dir_def installation_def has_headers_def)
  have v2: "headerless_for fs_same_dir ''/c'' (canonical_key ''sdk-5'') [''.'', ''..'', ''sdk-5.0'']"
    by (simp add: headerless_for_def fs_same_dir_def installation_def has_headers_def tolower_def)
  have m: "find_root (sdk_root_list (scan_all fs_same_dir ''/c'' True []))
             (Some (canonical_key ''sdk-5'')) = Some (kept_root fs_same_dir ''/c'' ''sdk-5'')"
    using first_sdk_with_headers_wins [where fs = fs_same_dir and PALMDEV_PREFIX = "''/c''"
        and report = True and d = "''sdk-5''" and earlier = "[''.'', ''..'', ''sdk-5.0'']"
        and later = "[''SDK-5.0'']" and args = "[]"] m5(2) v1 v2
    by blast
  have a': "find_root (sdk_root_list (scan_all fs_two_sdk5 ''/a'' False [''/b'', ''/b/sdk-5.0'']))
              (Some ''5'') = Some ?r"
    using a by (simp add: scan_all_def)
  have b': "scan_entry fs_two_sdk5 ''/b'' True (?st, 0) ''sdk-5.0'' =
              (printf (''  sdk-5.0      '' @ [CHR 0x09] @ ''UNUSED -- hidden by /a/sdk-5\<newline>'') ?st, 1)"
    using b by (simp add: pad13_def eval_nat_numeral)
  have c': "find_root (sdk_root_list (fst (scan_entry fs_two_sdk5 ''/a'' True (init_state, 0) ''sdk-5'')))
              (Some ''5'') = Some (kept_root fs_two_sdk5 ''/a'' ''sdk-5'')"
    using c k5(2) by simp
  have i2: "scan_entry fs_headerless_first ''/a'' True (init_state, 0) ''sdk-5'' =
              (printf (''  sdk-5        '' @ [CHR 0x09] @ ''INVALID -- no headers\<newline>'') init_state, 1)"
    using i by (simp add: pad13_def eval_nat_numeral)
  have i3: "find_root (sdk_root_list (fst (scan_entry fs_headerless_first ''/a'' True
              (init_state, 0) ''sdk-5''))) (Some ''5'') = None"
    using i' k5(2) by simp
  have o': "find_root (sdk_root_list (scan_all fs_headerless_first ''/a'' True [''/b''])) (Some ''5'') =
              Some \<lparr> prefix = ''/b/sdk-5'', sub_include = Some ''include'', sub_lib = None,
                     key = Some ''5'' \<rparr>"
    using o k5(2)
    by (simp add: kept_root_def make_root_def fs_headerless_first_def installation_def)
  have m': "find_root (sdk_root_list (scan_all fs_same_dir ''/c'' True [])) (Some ''5'') =
              Some \<lparr> prefix = ''/c/sdk-5'', sub_include = Some ''include'', sub_lib = None,
                     key = Some ''5'' \<rparr>"
    using m k5(2)
    by (simp add: kept_root_def make_root_def fs_same_dir_def installation_def)
  from a' b' c' i2 i3 o' m' show ?thesis by blast
qed

subsection \<open>C10: the SDK list is in reverse order of discovery\<close>



subsection \<open>C4: the default SDK\<close>

text \<open>
  C4: with no requested identifier and a non-empty SDK list, the selected default is a
  root of the list whose key no key of the list exceeds in the order of \<open>strcmp\<close>, which
  is the lexicographic order of the strings by character code; with the keys \<open>3\<close>, \<open>10\<close>
  and \<open>9\<close> it is the root with the key \<open>9\<close>. When the requested identifier is not found,
  the warning is recorded and the selected default is the automatic one. When the SDK
  list is empty, no default is selected, whatever was requested.
\<close>

theorem default_sdk_is_strcmp_greatest:
  "(sdk_root_list st \<noteq> [] \<longrightarrow>
      (\<exists>r. fst (select_default None report st) = Some r \<and> r \<in> set (sdk_root_list st) \<and>
           (\<forall>s\<in>set (sdk_root_list st).
              strcmp (the (key s)) (the (key r)) \<le> 0 \<and> the (key s) \<le> the (key r)))) \<and>
   (find_root (sdk_root_list st) (Some (canonical_key nm)) = None \<longrightarrow>
      fst (select_default (Some nm) report st) = fst (select_default None report st) \<and>
      warnings (snd (select_default (Some nm) report st)) =
        warnings st @ [''SDK '' @ [CHR 0x27] @ nm @ [CHR 0x27] @
                       '' not found -- using highest found instead'']) \<and>
   (sdk_root_list st = [] \<longrightarrow> fst (select_default default_sdk_name report st) = None) \<and>
   map_option key (fst (select_default None report state_3_10_9)) = Some (Some ''9'')"
proof -
  have a: "\<exists>r. fst (select_default None report st) = Some r \<and> r \<in> set (sdk_root_list st) \<and>
             (\<forall>s\<in>set (sdk_root_list st).
                strcmp (the (key s)) (the (key r)) \<le> 0 \<and> the (key s) \<le> the (key r))"
    if ne: "sdk_root_list st \<noteq> []"
  proof -
    obtain first rest where l: "sdk_root_list st = first # rest"
      using ne by (auto simp: neq_Nil_conv)
    define h where "h = highest_loop first (first # rest)"
    have sel: "fst (select_default None report st) = Some h"
      by (simp add: select_default_automatic l h_def)
    have "h \<in> set (first # rest) \<and> (\<forall>s\<in>set (first # rest). the (key s) \<le> the (key h))"
      unfolding h_def by (rule highest_loop_greatest)
    then have "h \<in> set (sdk_root_list st) \<and>
               (\<forall>s\<in>set (sdk_root_list st).
                  strcmp (the (key s)) (the (key h)) \<le> 0 \<and> the (key s) \<le> the (key h))"
      unfolding l by (simp add: strcmp_le_0_iff)
    with sel show ?thesis by blast
  qed
  have b: "fst (select_default (Some nm) report st) = fst (select_default None report st) \<and>
           warnings (snd (select_default (Some nm) report st)) =
             warnings st @ [''SDK '' @ [CHR 0x27] @ nm @ [CHR 0x27] @
                            '' not found -- using highest found instead'']"
    if "find_root (sdk_root_list st) (Some (canonical_key nm)) = None"
    using select_default_not_found [OF that, of report] by simp
  have c: "fst (select_default default_sdk_name report st) = None" if "sdk_root_list st = []"
    using that by (rule select_default_empty)
  have d: "map_option key (fst (select_default None report state_3_10_9)) = Some (Some ''9'')"
    by (simp add: select_default_automatic state_3_10_9_def init_state_def sdk_with_key_def)
  from a b c d show ?thesis by blast
qed

theorem default_sdk_is_strcmp_greatest_witness:
  "find_root (sdk_root_list state_3_10_9) (Some (canonical_key ''sdk-7.0'')) = None \<and>
   fst (select_default (Some ''sdk-7.0'') False state_3_10_9) = Some (sdk_with_key ''9'') \<and>
   warnings (snd (select_default (Some ''sdk-7.0'') False state_3_10_9)) =
     [''SDK '' @ [CHR 0x27] @ ''sdk-7.0'' @ [CHR 0x27] @
      '' not found -- using highest found instead''] \<and>
   fst (select_default (Some ''sdk-7.0'') False init_state) = None"
proof -
  have h1: "find_root (sdk_root_list state_3_10_9) (Some (canonical_key ''sdk-7.0'')) = None"
    by (simp add: state_3_10_9_def init_state_def sdk_with_key_def canonical_key_def
        skip_prefixes_def tolower_def)
  have h2: "sdk_root_list init_state = []"
    by (simp add: init_state_def)
  have auto_9: "fst (select_default None False state_3_10_9) = Some (sdk_with_key ''9'')"
    by (simp add: select_default_automatic state_3_10_9_def init_state_def sdk_with_key_def)
  have w0: "warnings state_3_10_9 = []"
    by (simp add: state_3_10_9_def init_state_def)
  have a: "fst (select_default (Some ''sdk-7.0'') False state_3_10_9) =
             fst (select_default None False state_3_10_9)"
    and b: "warnings (snd (select_default (Some ''sdk-7.0'') False state_3_10_9)) =
              warnings state_3_10_9 @ [''SDK '' @ [CHR 0x27] @ ''sdk-7.0'' @ [CHR 0x27] @
                                       '' not found -- using highest found instead'']"
    using default_sdk_is_strcmp_greatest [of state_3_10_9 False "''sdk-7.0''"] h1
    by blast+
  have c: "fst (select_default (Some ''sdk-7.0'') False init_state) = None"
    using default_sdk_is_strcmp_greatest [of init_state False "''sdk-7.0''" "Some ''sdk-7.0''"] h2
    by blast
  from h1 a b c auto_9 w0 show ?thesis by simp
qed

section \<open>The claims about the umbrella blocks\<close>

subsection \<open>C6: the order of the parts of an umbrella block\<close>

text \<open>
  C6: the text that \<open>write_main_spec\<close> adds to the file is, in this order, the label and
  the opening of the group guarded by \<open>!palmos-none\<close>; the directory lists of the generic
  roots, in the order of the generic list; for every root of the SDK list, in the order
  of that list, the reference guarded by the flag \<open>palmos\<close> followed by the root's key
  (directly followed by its duplicate for \<open>.0\<close> when the key is all digits); when a
  default SDK was resolved, one reference to its block guarded by \<open>!palmos*\<close>; and the
  closing of the group. The order of the generic list is the order of the scans: the
  scan of a directory adds its generic root, if it has one, at the end of the list.
\<close>

theorem umbrella_block_order:
  "write_main_spec fs st f target default_sdk kind =
     f @ ''*'' @ spec kind @ '':\<newline>+ %{!palmos-none:'' @
     concat (map (\<lambda>root. write_dirtree fs [] root target kind) (generic_root_list st)) @
     concat (map (\<lambda>sdk. guarded_ref kind (the (key sdk)) (the (key sdk)) @
                         (if all_digits (the (key sdk))
                          then guarded_ref kind (the (key sdk) @ ''.0'') (the (key sdk))
                          else []))
              (sdk_root_list st)) @
     (case default_sdk of Some d \<Rightarrow> default_ref kind (the (key d)) | None \<Rightarrow> []) @
     ''}\<newline>\<newline>'' \<and>
   generic_root_list (analyze_palmdev_tree fs pfx report st) =
     generic_root_list st @
     (case opendir fs pfx of
        None \<Rightarrow> []
      | Some es \<Rightarrow>
          if sub_include (make_root fs pfx) \<noteq> None \<or> sub_lib (make_root fs pfx) \<noteq> None
          then [make_root fs pfx] else [])"
proof -
  have g: "generic_root_list (analyze_palmdev_tree fs pfx report st) =
     generic_root_list st @
     (case opendir fs pfx of
        None \<Rightarrow> []
      | Some es \<Rightarrow>
          if sub_include (make_root fs pfx) \<noteq> None \<or> sub_lib (make_root fs pfx) \<noteq> None
          then [make_root fs pfx] else [])"
    by (simp add: analyze_generic_list split: option.splits)
  have "sdk_guards [] kind =
          (\<lambda>sdk. guarded_ref kind (the (key sdk)) (the (key sdk)) @
                  (if all_digits (the (key sdk))
                   then guarded_ref kind (the (key sdk) @ ''.0'') (the (key sdk))
                   else []))"
  proof (rule ext)
    fix sdk
    show "sdk_guards [] kind sdk =
            guarded_ref kind (the (key sdk)) (the (key sdk)) @
            (if all_digits (the (key sdk))
             then guarded_ref kind (the (key sdk) @ ''.0'') (the (key sdk))
             else [])"
      using sdk_guards_text [of "[]" kind sdk] by simp
  qed
  then have "write_main_spec fs st f target default_sdk kind =
     f @ ''*'' @ spec kind @ '':\<newline>+ %{!palmos-none:'' @
     concat (map (\<lambda>root. write_dirtree fs [] root target kind) (generic_root_list st)) @
     concat (map (\<lambda>sdk. guarded_ref kind (the (key sdk)) (the (key sdk)) @
                         (if all_digits (the (key sdk))
                          then guarded_ref kind (the (key sdk) @ ''.0'') (the (key sdk))
                          else []))
              (sdk_root_list st)) @
     (case default_sdk of Some d \<Rightarrow> default_ref kind (the (key d)) | None \<Rightarrow> []) @
     ''}\<newline>\<newline>''"
    by (simp add: write_main_spec_text)
  with g show ?thesis by (rule conjI [rotated])
qed

theorem umbrella_block_order_witness:
  "write_main_spec fs_palmdev state_3_4 [] None (Some (sdk_with_key ''4'')) include_kind =
     ''*cpp:\<newline>+ %{!palmos-none: %{palmos3:%(cpp_sdk_3)} %{palmos3.0:%(cpp_sdk_3)}'' @
     '' %{palmos4:%(cpp_sdk_4)} %{palmos4.0:%(cpp_sdk_4)} %{!palmos*: %(cpp_sdk_4)}}\<newline>\<newline>'' \<and>
   generic_root_list (analyze_palmdev_tree fs_palmdev ''/opt/palmdev'' False state_3_4) =
     [\<lparr> prefix = ''/opt/palmdev'', sub_include = Some ''include'', sub_lib = None, key = None \<rparr>]"
  using umbrella_block_order [of fs_palmdev state_3_4 "[]" None "Some (sdk_with_key ''4'')"
      include_kind "''/opt/palmdev''" False]
  by (simp add: state_3_4_def init_state_def sdk_with_key_def guarded_ref_def default_ref_def
      all_digits_def spec_def fs_palmdev_def installation_def make_root_def)

subsection \<open>C7: the second guard of an all-digits key\<close>

text \<open>
  C7: for one root of the SDK list the loop of \<open>write_main_spec\<close> writes the reference
  guarded by the root's key, and after it a second reference to the same block, guarded
  by the key followed by \<open>.0\<close>, exactly when every character of the key is a decimal
  digit; for a key with any other character it writes the one reference only. The whole
  loop writes these texts root after root.
\<close>

theorem second_guard_iff_all_digits:
  "sdk_guards f kind sdk =
     f @ guarded_ref kind (the (key sdk)) (the (key sdk)) @
     (if set (the (key sdk)) \<subseteq> set ''0123456789''
      then guarded_ref kind (the (key sdk) @ ''.0'') (the (key sdk))
      else []) \<and>
   sdk_loop f kind sdks = f @ concat (map (sdk_guards [] kind) sdks)"
  using sdk_guards_text [of f kind sdk] sdk_loop_concat [of f kind sdks]
  by (simp add: all_digits_def)

theorem second_guard_iff_all_digits_witness:
  "sdk_guards [] lib_kind (sdk_with_key ''4'') =
     '' %{palmos4:%(link_sdk_4)} %{palmos4.0:%(link_sdk_4)}'' \<and>
   sdk_guards [] lib_kind (sdk_with_key ''3.5'') = '' %{palmos3.5:%(link_sdk_3.5)}''"
  using second_guard_iff_all_digits [of "[]" lib_kind "sdk_with_key ''4''" "[]"]
    second_guard_iff_all_digits [of "[]" lib_kind "sdk_with_key ''3.5''" "[]"]
  by (simp add: sdk_with_key_def guarded_ref_def spec_def)

end
